theory Spec2Isabelle
  imports Complex_Main
begin

section \<open>Merge-path CSR SpMV (cpu\_spmv.cpp): the embedding\<close>

text \<open>
  The index type \<open>OffsetT\<close> is \<open>int\<close> (RunTests is instantiated with it), 32 bits wide.
  The search and the partitioner compute sums, differences and products of sizes; every
  such operation is taken modulo \<open>2\<^sup>3\<^sup>2\<close> into the signed range (\<open>wrap32\<close>), which is
  what the compiled code does where the C++ standard leaves the overflow undefined. In the
  kernel and in the counted loops an index only moves up by one while it is below a bound
  that is itself an \<open>int\<close>, so no wrap-around is written there. The search loop need not
  end once a pivot has wrapped around: it is a partial function, and not returning is the
  error \<open>NonTermination\<close> of the search.

  The element type \<open>ValueT\<close> is any type with \<open>0\<close>, \<open>+\<close> and \<open>*\<close>; the theorems that
  need exact arithmetic ask for a commutative monoid. Arrays are lists; every subscript is
  checked, and an access outside the array is the error \<open>OutOfBounds\<close> of that array. The
  two \<open>omp parallel for\<close> loops are run in ascending thread id; on the partitions that the
  partitioner computes their iterations write disjoint cells and commute (lemma
  \<open>merge_threads_commute\<close>).
\<close>

subsection \<open>Errors, arrays and loops\<close>

datatype array_id =
  RowOffsets | ColumnIndices | Values | VectorX | VectorY
  | ThreadCoords | ThreadCoordEnds | RowCarryOut | ValueCarryOut

datatype error = OutOfBounds array_id | Uninitialised array_id | NonTermination

definition and_then :: "error + 'a \<Rightarrow> ('a \<Rightarrow> error + 'b) \<Rightarrow> error + 'b" where
  "and_then r f = (case r of Inl e \<Rightarrow> Inl e | Inr v \<Rightarrow> f v)"

definition load :: "array_id \<Rightarrow> 'a list \<Rightarrow> int \<Rightarrow> error + 'a" where
  "load arr xs i =
     (if 0 \<le> i \<and> i < int (length xs) then Inr (xs ! nat i) else Inl (OutOfBounds arr))"

definition store :: "array_id \<Rightarrow> 'a list \<Rightarrow> int \<Rightarrow> 'a \<Rightarrow> error + 'a list" where
  "store arr xs i v =
     (if 0 \<le> i \<and> i < int (length xs) then Inr (xs[nat i := v]) else Inl (OutOfBounds arr))"

text \<open>A stack array that is declared without an initialiser holds \<open>None\<close> until written.\<close>

definition load_init :: "array_id \<Rightarrow> 'a option list \<Rightarrow> int \<Rightarrow> error + 'a" where
  "load_init arr xs i =
     and_then (load arr xs i)
       (\<lambda>c. case c of None \<Rightarrow> Inl (Uninitialised arr) | Some v \<Rightarrow> Inr v)"

text \<open>
  \<^verbatim>\<open>for (; i < n; ++i) body\<close>, where the body reads \<open>i\<close> and updates the state \<open>s\<close>.
  The result is the final value of \<open>i\<close> with the final state.
\<close>

function for_loop :: "int \<Rightarrow> int \<Rightarrow> (int \<Rightarrow> 's \<Rightarrow> error + 's) \<Rightarrow> 's \<Rightarrow> error + int \<times> 's" where
  "for_loop i n body s =
     (if i < n
      then (case body i s of Inl e \<Rightarrow> Inl e | Inr s' \<Rightarrow> for_loop (i + 1) n body s')
      else Inr (i, s))"
  by pat_completeness auto
termination
  by (relation "measure (\<lambda>(i, n, body, s). nat (n - i))") auto

text \<open>C++ integer division truncates towards zero.\<close>

definition tdiv :: "int \<Rightarrow> int \<Rightarrow> int" where
  "tdiv a b = sgn a * sgn b * (\<bar>a\<bar> div \<bar>b\<bar>)"

text \<open>
  The value of a 32-bit \<open>int\<close> after an operation whose exact result is \<open>i\<close>: the
  representative of \<open>i\<close> modulo \<open>2\<^sup>3\<^sup>2\<close> in \<open>[-2\<^sup>3\<^sup>1, 2\<^sup>3\<^sup>1)\<close>.
\<close>

definition wrap32 :: "int \<Rightarrow> int" where
  "wrap32 i = (i + 2 ^ 31) mod 2 ^ 32 - 2 ^ 31"

subsection \<open>Coordinates and the counting iterator\<close>

text \<open>\<^verbatim>\<open>struct int2 { int x; int y; }\<close>\<close>

record int2 =
  coord_x :: int
  coord_y :: int

text \<open>\<^verbatim>\<open>CountingInputIterator::operator[]\<close>: \<^verbatim>\<open>return val + n\<close>.\<close>

definition counting_subscript :: "int \<Rightarrow> int \<Rightarrow> int" where
  "counting_subscript val n = wrap32 (val + n)"

subsection \<open>MergePathSearch\<close>

text \<open>
  List \<open>a\<close> is given by its subscript operation (which may fail), list \<open>b\<close> by the
  counting iterator's. \<^verbatim>\<open>(x_min + x_max) >> 1\<close> shifts the 32-bit sum arithmetically, which
  is the division by 2 that rounds down. When the sum has wrapped around, the pivot is
  negative and the interval need not shrink, so the loop is a partial function: \<open>None\<close>
  is a loop that does not return.
\<close>

partial_function (option) MergePathSearch_loop ::
  "int \<Rightarrow> (int \<Rightarrow> error + int) \<Rightarrow> (int \<Rightarrow> int) \<Rightarrow> int \<Rightarrow> int \<Rightarrow> (error + int) option" where
  "MergePathSearch_loop diagonal a b x_min x_max =
     (if x_min < x_max
      then (let x_pivot = wrap32 (x_min + x_max) div 2 in
            case a x_pivot of
              Inl e \<Rightarrow> Some (Inl e)
            | Inr a_pivot \<Rightarrow>
                if a_pivot \<le> b (wrap32 (wrap32 (diagonal - x_pivot) - 1))
                then MergePathSearch_loop diagonal a b (wrap32 (x_pivot + 1)) x_max
                else MergePathSearch_loop diagonal a b x_min x_pivot)
      else Some (Inr x_min))"

declare MergePathSearch_loop.simps [code]

definition MergePathSearch ::
  "int \<Rightarrow> (int \<Rightarrow> error + int) \<Rightarrow> (int \<Rightarrow> int) \<Rightarrow> int \<Rightarrow> int \<Rightarrow> error + int2" where
  "MergePathSearch diagonal a b a_len b_len =
     (case MergePathSearch_loop diagonal a b (max (wrap32 (diagonal - b_len)) 0)
             (min diagonal a_len) of
        None \<Rightarrow> Inl NonTermination
      | Some r \<Rightarrow>
          and_then r
            (\<lambda>x_min. Inr \<lparr>coord_x = min x_min a_len, coord_y = wrap32 (diagonal - x_min)\<rparr>))"

subsection \<open>OmpMergePartitionMatrix\<close>

text \<open>
  The pointer \<open>row_offsets + 1\<close> as list \<open>a\<close>: \<open>a[i]\<close> is \<open>row_offsets[i + 1]\<close>. The
  address is computed at pointer width, so this sum does not wrap around.
\<close>

definition row_end_offsets :: "int list \<Rightarrow> int \<Rightarrow> error + int" where
  "row_end_offsets row_offsets i = load RowOffsets row_offsets (i + 1)"

text \<open>
  The body of the loop over \<open>tid\<close>. The loop runs \<open>tid\<close> below \<open>num_threads\<close>, so the
  divisor is positive and the quotient is an \<open>int\<close>.
\<close>

definition partition_thread ::
  "int \<Rightarrow> int \<Rightarrow> int \<Rightarrow> int list \<Rightarrow> int \<Rightarrow> int2 list \<times> int2 list \<Rightarrow> error + int2 list \<times> int2 list" where
  "partition_thread num_threads num_rows num_nonzeros row_offsets tid st =
     (case st of (thread_coords, thread_coord_ends) \<Rightarrow>
      let nonzero_indices = counting_subscript 0;
          a = row_end_offsets row_offsets;
          num_merge_items = wrap32 (num_rows + num_nonzeros);
          items_per_thread =
            tdiv (wrap32 (wrap32 (num_merge_items + num_threads) - 1)) num_threads;
          start_diagonal = min (wrap32 (items_per_thread * tid)) num_merge_items;
          end_diagonal = min (wrap32 (start_diagonal + items_per_thread)) num_merge_items
      in and_then (MergePathSearch start_diagonal a nonzero_indices num_rows num_nonzeros)
           (\<lambda>c. and_then (store ThreadCoords thread_coords tid c)
           (\<lambda>thread_coords'.
              and_then (MergePathSearch end_diagonal a nonzero_indices num_rows num_nonzeros)
           (\<lambda>c_end. and_then (store ThreadCoordEnds thread_coord_ends tid c_end)
           (\<lambda>thread_coord_ends'. Inr (thread_coords', thread_coord_ends'))))))"

definition OmpMergePartitionMatrix ::
  "int2 list \<Rightarrow> int2 list \<Rightarrow> int \<Rightarrow> int \<Rightarrow> int \<Rightarrow> int list \<Rightarrow> error + int2 list \<times> int2 list" where
  "OmpMergePartitionMatrix thread_coords thread_coord_ends num_threads num_rows num_nonzeros
       row_offsets =
     and_then
       (for_loop 0 num_threads
          (partition_thread num_threads num_rows num_nonzeros row_offsets)
          (thread_coords, thread_coord_ends))
       (\<lambda>r. Inr (snd r))"

subsection \<open>The accumulation loop\<close>

text \<open>\<^verbatim>\<open>values[j] * vector_x[column_indices[j]]\<close>\<close>

definition nonzero_product ::
  "int list \<Rightarrow> 'a list \<Rightarrow> 'a list \<Rightarrow> int \<Rightarrow> error + 'a::times" where
  "nonzero_product column_indices values vector_x j =
     and_then (load Values values j)
       (\<lambda>v. and_then (load ColumnIndices column_indices j)
       (\<lambda>c. and_then (load VectorX vector_x c)
       (\<lambda>xv. Inr (v * xv))))"

text \<open>
  \<^verbatim>\<open>for (; j < limit; ++j) running_total += values[j] * vector_x[column_indices[j]]\<close>:
  the inner loop of SpmvGold and both accumulation loops of OmpMergeCsrmv.
\<close>

definition accumulate ::
  "int list \<Rightarrow> 'a list \<Rightarrow> 'a list \<Rightarrow> int \<Rightarrow> int \<Rightarrow> 'a \<Rightarrow> error + int \<times> 'a::{plus,times}" where
  "accumulate column_indices values vector_x j limit running_total =
     for_loop j limit
       (\<lambda>j total. and_then (nonzero_product column_indices values vector_x j)
                    (\<lambda>p. Inr (total + p)))
       running_total"

subsection \<open>SpmvGold\<close>

definition SpmvGold ::
  "int \<Rightarrow> int list \<Rightarrow> int list \<Rightarrow> 'a list \<Rightarrow> 'a list \<Rightarrow> 'a list
     \<Rightarrow> error + 'a::{zero,plus,times} list" where
  "SpmvGold num_rows row_offsets column_indices values vector_x vector_y_out =
     and_then
       (for_loop 0 num_rows
          (\<lambda>row y.
             and_then (load RowOffsets row_offsets row)
               (\<lambda>offset. and_then (load RowOffsets row_offsets (row + 1))
               (\<lambda>limit. and_then (accumulate column_indices values vector_x offset limit 0)
               (\<lambda>r. store VectorY y row (snd r)))))
          vector_y_out)
       (\<lambda>r. Inr (snd r))"

subsection \<open>OmpMergeCsrmv\<close>

text \<open>
  One iteration of the loop that consumes whole rows. The state is
  \<open>thread_coord.y\<close> with \<open>vector_y_out\<close>. The loop condition reads
  \<open>row_offsets[thread_coord.x + 1]\<close> at least once, and the array does not change.
\<close>

definition consume_row ::
  "int list \<Rightarrow> int list \<Rightarrow> 'a list \<Rightarrow> 'a list \<Rightarrow> int \<Rightarrow> int \<times> 'a list
     \<Rightarrow> error + int \<times> 'a::{zero,plus,times} list" where
  "consume_row row_offsets column_indices values vector_x row st =
     (case st of (j, y) \<Rightarrow>
      and_then (load RowOffsets row_offsets (row + 1))
        (\<lambda>limit. and_then (accumulate column_indices values vector_x j limit 0)
        (\<lambda>r. and_then (store VectorY y row (snd r))
        (\<lambda>y'. Inr (fst r, y')))))"

text \<open>
  The body of the parallel loop over \<open>tid\<close>. The state is \<open>vector_y_out\<close> with the two
  carry-out arrays.
\<close>

definition merge_thread ::
  "int2 list \<Rightarrow> int2 list \<Rightarrow> int list \<Rightarrow> int list \<Rightarrow> 'a list \<Rightarrow> 'a list \<Rightarrow> int
     \<Rightarrow> 'a list \<times> int option list \<times> 'a option list
     \<Rightarrow> error + 'a::{zero,plus,times} list \<times> int option list \<times> 'a option list" where
  "merge_thread thread_coords thread_coord_ends row_offsets column_indices values vector_x tid st =
     (case st of (y, row_carry_out, value_carry_out) \<Rightarrow>
      and_then (load ThreadCoords thread_coords tid)
        (\<lambda>thread_coord. and_then (load ThreadCoordEnds thread_coord_ends tid)
        (\<lambda>thread_coord_end.
           and_then
             (for_loop (coord_x thread_coord) (coord_x thread_coord_end)
                (consume_row row_offsets column_indices values vector_x)
                (coord_y thread_coord, y))
        (\<lambda>r. and_then
                (accumulate column_indices values vector_x (fst (snd r))
                   (coord_y thread_coord_end) 0)
        (\<lambda>t. and_then (store RowCarryOut row_carry_out tid (Some (coord_x thread_coord_end)))
        (\<lambda>row_carry_out'. and_then (store ValueCarryOut value_carry_out tid (Some (snd t)))
        (\<lambda>value_carry_out'. Inr (snd (snd r), row_carry_out', value_carry_out'))))))))"

text \<open>The body of the serial fix-up loop.\<close>

definition fixup_step ::
  "int \<Rightarrow> int option list \<Rightarrow> 'a option list \<Rightarrow> int \<Rightarrow> 'a list \<Rightarrow> error + 'a::plus list" where
  "fixup_step num_rows row_carry_out value_carry_out tid y =
     and_then (load_init RowCarryOut row_carry_out tid)
       (\<lambda>row. if row < num_rows
               then and_then (load_init ValueCarryOut value_carry_out tid)
                      (\<lambda>v. and_then (load VectorY y row)
                      (\<lambda>old. store VectorY y row (old + v)))
               else Inr y)"

definition fixup ::
  "int \<Rightarrow> int \<Rightarrow> int option list \<Rightarrow> 'a option list \<Rightarrow> 'a list \<Rightarrow> error + 'a::plus list" where
  "fixup num_threads num_rows row_carry_out value_carry_out y =
     and_then (for_loop 0 (num_threads - 1) (fixup_step num_rows row_carry_out value_carry_out) y)
       (\<lambda>r. Inr (snd r))"

text \<open>The parallel phase: the state after the loop over \<open>tid\<close>.\<close>

definition merge_threads ::
  "int2 list \<Rightarrow> int2 list \<Rightarrow> int \<Rightarrow> int list \<Rightarrow> int list \<Rightarrow> 'a list \<Rightarrow> 'a list \<Rightarrow> 'a list
     \<Rightarrow> error + 'a::{zero,plus,times} list \<times> int option list \<times> 'a option list" where
  "merge_threads thread_coords thread_coord_ends num_threads row_offsets column_indices values
       vector_x vector_y_out =
     and_then
       (for_loop 0 num_threads
          (merge_thread thread_coords thread_coord_ends row_offsets column_indices values vector_x)
          (vector_y_out, replicate 256 None, replicate 256 None))
       (\<lambda>r. Inr (snd r))"

definition OmpMergeCsrmv ::
  "int2 list \<Rightarrow> int2 list \<Rightarrow> int \<Rightarrow> int \<Rightarrow> int \<Rightarrow> int list \<Rightarrow> int list \<Rightarrow> 'a list \<Rightarrow> 'a list
     \<Rightarrow> 'a list \<Rightarrow> error + 'a::{zero,plus,times} list" where
  "OmpMergeCsrmv thread_coords thread_coord_ends num_threads num_rows num_nonzeros row_offsets
       column_indices values vector_x vector_y_out =
     and_then
       (merge_threads thread_coords thread_coord_ends num_threads row_offsets column_indices
          values vector_x vector_y_out)
       (\<lambda>st. case st of (y, row_carry_out, value_carry_out) \<Rightarrow>
          fixup num_threads num_rows row_carry_out value_carry_out y)"

text \<open>
  TestOmpMergeCsrmv: the two coordinate arrays are allocated by the caller (their
  initial contents are arbitrary), filled by the partitioner and handed to the kernel.
\<close>

definition merge_spmv ::
  "int2 list \<Rightarrow> int2 list \<Rightarrow> int \<Rightarrow> int \<Rightarrow> int \<Rightarrow> int list \<Rightarrow> int list \<Rightarrow> 'a list \<Rightarrow> 'a list
     \<Rightarrow> 'a list \<Rightarrow> error + 'a::{zero,plus,times} list" where
  "merge_spmv thread_coords thread_coord_ends num_threads num_rows num_nonzeros row_offsets
       column_indices values vector_x vector_y_out =
     and_then
       (OmpMergePartitionMatrix thread_coords thread_coord_ends num_threads num_rows
          num_nonzeros row_offsets)
       (\<lambda>p. OmpMergeCsrmv (fst p) (snd p) num_threads num_rows num_nonzeros row_offsets
               column_indices values vector_x vector_y_out)"

subsection \<open>Well-formed inputs\<close>

text \<open>The row-offset array of a CSR matrix with \<open>m\<close> rows and \<open>nnz\<close> nonzeros.\<close>

definition wf_offsets :: "int \<Rightarrow> int \<Rightarrow> int list \<Rightarrow> bool" where
  "wf_offsets m nnz row_offsets \<longleftrightarrow>
     1 \<le> m \<and> 0 \<le> nnz \<and> length row_offsets = nat m + 1 \<and> sorted row_offsets
     \<and> row_offsets ! 0 = 0 \<and> row_offsets ! nat m = nnz"

text \<open>The whole CSR triple for \<open>n\<close> columns, with an input vector of length \<open>n\<close>.\<close>

definition wf_csr ::
  "int \<Rightarrow> int \<Rightarrow> int \<Rightarrow> int list \<Rightarrow> int list \<Rightarrow> 'a list \<Rightarrow> 'a list \<Rightarrow> bool" where
  "wf_csr m n nnz row_offsets column_indices values vector_x \<longleftrightarrow>
     wf_offsets m nnz row_offsets
     \<and> length column_indices = nat nnz \<and> length values = nat nnz
     \<and> list_all (\<lambda>c. 0 \<le> c \<and> c < n) column_indices
     \<and> int (length vector_x) = n"

subsection \<open>The specification's words\<close>

text \<open>
  The contract of the search as the specification words it: the row coordinate is the
  largest \<open>i\<close> in \<open>[max(0, d - nnz), min(d, m)]\<close> with \<open>row_offsets[i] \<le> d - i\<close>, and
  the two coordinates add up to \<open>d\<close>.
\<close>

definition merge_path_spec :: "int \<Rightarrow> int \<Rightarrow> int list \<Rightarrow> int \<Rightarrow> int2" where
  "merge_path_spec m nnz row_offsets d =
     (let i = Max (set (filter (\<lambda>i. row_offsets ! nat i \<le> d - i) [max 0 (d - nnz)..min d m]))
      in \<lparr>coord_x = i, coord_y = d - i\<rparr>)"

text \<open>The per-thread quantum \<open>q = \<lceil>M / P\<rceil>\<close>.\<close>

definition quantum :: "int \<Rightarrow> int \<Rightarrow> int" where
  "quantum M P = \<lceil>real_of_int M / real_of_int P\<rceil>"

text \<open>
  A coordinate lies on the merge path at diagonal \<open>d\<close>: it has completed
  \<open>coord_x\<close> rows and consumed \<open>coord_y\<close> nonzeros, which belong to no later row
  than \<open>coord_x\<close>.
\<close>

definition on_path :: "int \<Rightarrow> int list \<Rightarrow> int \<Rightarrow> int2 \<Rightarrow> bool" where
  "on_path m row_offsets d c \<longleftrightarrow>
     coord_x c + coord_y c = d \<and> 0 \<le> coord_x c \<and> coord_x c \<le> m
     \<and> row_offsets ! nat (coord_x c) \<le> coord_y c
     \<and> (coord_x c < m \<longrightarrow> coord_y c \<le> row_offsets ! nat (coord_x c + 1))"

text \<open>
  The coordinate ranges of a partition for \<open>P\<close> threads stay inside the matrix:
  \<open>0 \<le> start[t].x \<le> end[t].x \<le> m\<close> and \<open>0 \<le> start[t].y \<le> end[t].y \<le> nnz\<close>.
\<close>

definition partition_in_range :: "int \<Rightarrow> int \<Rightarrow> int \<Rightarrow> int2 list \<Rightarrow> int2 list \<Rightarrow> bool" where
  "partition_in_range P m nnz starts ends \<longleftrightarrow>
     length starts = nat P \<and> length ends = nat P
     \<and> list_all (\<lambda>(s, e). 0 \<le> coord_x s \<and> coord_x s \<le> coord_x e \<and> coord_x e \<le> m
                      \<and> 0 \<le> coord_y s \<and> coord_y s \<le> coord_y e \<and> coord_y e \<le> nnz)
         (zip starts ends)"

subsection \<open>What the kernel computes\<close>

text \<open>
  The running total of the nonzeros \<open>a, \<dots>, b - 1\<close>, added from \<open>0\<close> in ascending order.
\<close>

definition partial_sum :: "int list \<Rightarrow> 'a list \<Rightarrow> 'a list \<Rightarrow> int \<Rightarrow> int \<Rightarrow> 'a::{zero,plus,times}" where
  "partial_sum column_indices values vector_x a b =
     foldl (\<lambda>total j. total + values ! nat j * vector_x ! nat (column_indices ! nat j)) 0
       [a..b - 1]"

text \<open>The value of \<open>thread_coord.y\<close> when a thread that started at \<open>c\<close> reaches row \<open>i\<close>.\<close>

definition row_start :: "int list \<Rightarrow> int2 \<Rightarrow> int \<Rightarrow> int" where
  "row_start row_offsets c i =
     (if i = coord_x c then coord_y c else max (coord_y c) (row_offsets ! nat i))"

text \<open>What a thread from \<open>c\<close> stores in \<open>vector_y_out[i]\<close> for a row \<open>i\<close> that it completes.\<close>

definition row_write ::
  "int list \<Rightarrow> int list \<Rightarrow> 'a list \<Rightarrow> 'a list \<Rightarrow> int2 \<Rightarrow> nat \<Rightarrow> 'a::{zero,plus,times}" where
  "row_write row_offsets column_indices values vector_x c i =
     partial_sum column_indices values vector_x (row_start row_offsets c (int i))
       (row_offsets ! (i + 1))"

text \<open>The carry-out value of a thread from \<open>c\<close> to \<open>c_end\<close>.\<close>

definition carry_out ::
  "int list \<Rightarrow> int list \<Rightarrow> 'a list \<Rightarrow> 'a list \<Rightarrow> int2 \<Rightarrow> int2 \<Rightarrow> 'a::{zero,plus,times}" where
  "carry_out row_offsets column_indices values vector_x c c_end =
     partial_sum column_indices values vector_x (row_start row_offsets c (coord_x c_end))
       (coord_y c_end)"

text \<open>
  \<open>vector_y_out[i]\<close> after the threads \<open>0, \<dots>, k - 1\<close> of the parallel phase: the last
  thread that completes row \<open>i\<close> decides.
\<close>

primrec y_parallel ::
  "int2 list \<Rightarrow> int2 list \<Rightarrow> int list \<Rightarrow> int list \<Rightarrow> 'a list \<Rightarrow> 'a list \<Rightarrow> 'a list
     \<Rightarrow> nat \<Rightarrow> nat \<Rightarrow> 'a::{zero,plus,times}" where
  "y_parallel starts ends row_offsets column_indices values vector_x y0 0 i = y0 ! i"
| "y_parallel starts ends row_offsets column_indices values vector_x y0 (Suc k) i =
     (if coord_x (starts ! k) \<le> int i \<and> int i < coord_x (ends ! k)
      then row_write row_offsets column_indices values vector_x (starts ! k) i
      else y_parallel starts ends row_offsets column_indices values vector_x y0 k i)"

text \<open>
  \<open>y[i]\<close> after the fix-up steps \<open>0, \<dots>, k - 1\<close>, from the carry-out rows and values.
\<close>

primrec y_fixup :: "(nat \<Rightarrow> int) \<Rightarrow> (nat \<Rightarrow> 'a) \<Rightarrow> 'a list \<Rightarrow> nat \<Rightarrow> nat \<Rightarrow> 'a::plus" where
  "y_fixup rows carries y 0 i = y ! i"
| "y_fixup rows carries y (Suc k) i =
     (if rows k = int i then y_fixup rows carries y k i + carries k
      else y_fixup rows carries y k i)"

text \<open>\<open>vector_y_out\<close> after the parallel phase and the fix-up, for \<open>P\<close> threads.\<close>

definition y_final ::
  "int2 list \<Rightarrow> int2 list \<Rightarrow> int \<Rightarrow> int \<Rightarrow> int list \<Rightarrow> int list \<Rightarrow> 'a list \<Rightarrow> 'a list \<Rightarrow> 'a list
     \<Rightarrow> 'a::{zero,plus,times} list" where
  "y_final starts ends P m row_offsets column_indices values vector_x y0 =
     map (y_fixup (\<lambda>t. coord_x (ends ! t))
            (\<lambda>t. carry_out row_offsets column_indices values vector_x (starts ! t) (ends ! t))
            (map (y_parallel starts ends row_offsets column_indices values vector_x y0 (nat P))
               [0..<nat m])
            (nat (P - 1)))
       [0..<nat m]"

subsection \<open>Contiguous partitions along the merge path\<close>

text \<open>
  The \<open>P + 1\<close> boundary coordinates of a partition: thread \<open>t\<close> runs from point \<open>t\<close> to
  point \<open>t + 1\<close>; the points lie on the merge path at non-decreasing diagonals, from
  \<open>(0, 0)\<close> to \<open>(m, nnz)\<close>.
\<close>

definition path_points :: "int \<Rightarrow> int \<Rightarrow> int list \<Rightarrow> int \<Rightarrow> int2 list \<Rightarrow> bool" where
  "path_points m nnz row_offsets P ps \<longleftrightarrow>
     length ps = nat P + 1
     \<and> ps ! 0 = \<lparr>coord_x = 0, coord_y = 0\<rparr> \<and> ps ! nat P = \<lparr>coord_x = m, coord_y = nnz\<rparr>
     \<and> (\<forall>k\<le>nat P. on_path m row_offsets (coord_x (ps ! k) + coord_y (ps ! k)) (ps ! k))
     \<and> (\<forall>k<nat P. coord_x (ps ! k) + coord_y (ps ! k)
                     \<le> coord_x (ps ! Suc k) + coord_y (ps ! Suc k))"

text \<open>The sum of those nonzeros of row \<open>i\<close> that lie in \<open>j, \<dots>, j' - 1\<close>.\<close>

definition row_part ::
  "int list \<Rightarrow> int list \<Rightarrow> 'a list \<Rightarrow> 'a list \<Rightarrow> nat \<Rightarrow> int \<Rightarrow> int \<Rightarrow> 'a::{zero,plus,times}" where
  "row_part row_offsets column_indices values vector_x i j j' =
     partial_sum column_indices values vector_x
       (min (max j (row_offsets ! i)) (row_offsets ! (i + 1)))
       (min (max j' (row_offsets ! i)) (row_offsets ! (i + 1)))"

subsection \<open>RunTests: choosing the data set\<close>

text \<open>
  The first part of RunTests, up to the point where the matrix is converted to CSR and the
  kernels are timed. The COO matrix type and its initialisers live in sparse\_matrix.h;
  the sizes of the matrix that the chosen initialiser produced are a parameter.
\<close>

record coo_sizes =
  coo_num_rows :: int
  coo_num_cols :: int
  coo_num_nonzeros :: int

text \<open>What RunTests prints in this part (the last one on stderr).\<close>

datatype message =
  TrivialDataset | MtxLabel string | Grid2dLabel int | Grid3dLabel int | WheelLabel int
  | DenseLabel int int | NoGraphTypeSpecified

text \<open>Either the process exits with a code, or RunTests goes on to the benchmarks.\<close>

datatype outcome = Exit int | RunBenchmarks

definition RunTests_load ::
  "bool \<Rightarrow> string \<Rightarrow> int \<Rightarrow> int \<Rightarrow> int \<Rightarrow> int \<Rightarrow> coo_sizes \<Rightarrow> message list \<times> outcome" where
  "RunTests_load g_quiet mtx_filename grid2d grid3d wheel dense coo_matrix =
     (if mtx_filename \<noteq> []
      then (if coo_num_rows coo_matrix = 1 \<or> coo_num_cols coo_matrix = 1
               \<or> coo_num_nonzeros coo_matrix = 1
            then ((if \<not> g_quiet then [TrivialDataset] else []), Exit 0)
            else ([MtxLabel mtx_filename], RunBenchmarks))
      else if grid2d > 0 then ([Grid2dLabel grid2d], RunBenchmarks)
      else if grid3d > 0 then ([Grid3dLabel grid3d], RunBenchmarks)
      else if wheel > 0 then ([WheelLabel grid2d], RunBenchmarks)
      else if dense > 0 then ([DenseLabel (tdiv (2 ^ 24) dense) dense], RunBenchmarks)
      else ([NoGraphTypeSpecified], Exit 1))"

text \<open>
  The degenerate-input rule as the specification words it: a matrix with \<open>m \<le> 1\<close> or
  \<open>n \<le> 1\<close> or \<open>nnz \<le> 1\<close> is reported as a trivial data set, and the driver exits with
  code 0 instead of running the benchmarks.
\<close>

definition degenerate :: "coo_sizes \<Rightarrow> bool" where
  "degenerate coo_matrix \<longleftrightarrow>
     coo_num_rows coo_matrix \<le> 1 \<or> coo_num_cols coo_matrix \<le> 1
     \<or> coo_num_nonzeros coo_matrix \<le> 1"

definition reports_trivial :: "message list \<times> outcome \<Rightarrow> bool" where
  "reports_trivial r \<longleftrightarrow> TrivialDataset \<in> set (fst r) \<and> snd r = Exit 0"

subsection \<open>A sample input\<close>

text \<open>
  Scenario S2 of the specification: four rows, six nonzeros, all in row 1, three threads.
\<close>

definition s2_row_offsets :: "int list" where
  "s2_row_offsets = [0, 0, 6, 6, 6]"

definition s2_column_indices :: "int list" where
  "s2_column_indices = [0, 1, 2, 3, 4, 5]"

definition s2_values :: "int list" where
  "s2_values = [1, 1, 1, 1, 1, 1]"

definition s2_vector_x :: "int list" where
  "s2_vector_x = [1, 2, 3, 4, 5, 6]"

definition s2_starts :: "int2 list" where
  "s2_starts = [\<lparr>coord_x = 0, coord_y = 0\<rparr>, \<lparr>coord_x = 1, coord_y = 3\<rparr>,
                \<lparr>coord_x = 2, coord_y = 6\<rparr>]"

definition s2_ends :: "int2 list" where
  "s2_ends = [\<lparr>coord_x = 1, coord_y = 3\<rparr>, \<lparr>coord_x = 2, coord_y = 6\<rparr>,
              \<lparr>coord_x = 4, coord_y = 6\<rparr>]"

text \<open>Freshly allocated coordinate arrays and an output vector, with arbitrary contents.\<close>

definition s2_fresh :: "int2 list" where
  "s2_fresh = replicate 3 \<lparr>coord_x = 7, coord_y = 7\<rparr>"

definition s2_y0 :: "int list" where
  "s2_y0 = [9, 9, 9, 9]"

subsection \<open>A large input\<close>

text \<open>
  A well-formed matrix with 1500000000 rows and 100000000 nonzeros, all of them in the
  last row, for eight threads. All sizes, and \<open>m + nnz\<close>, are values of type \<open>int\<close>.
\<close>

definition large_row_offsets :: "int list" where
  "large_row_offsets = replicate 1500000000 0 @ [100000000]"

definition large_column_indices :: "int list" where
  "large_column_indices = replicate 100000000 0"

definition large_values :: "int list" where
  "large_values = replicate 100000000 1"

definition large_vector_x :: "int list" where
  "large_vector_x = [1]"

definition large_y0 :: "int list" where
  "large_y0 = replicate 1500000000 9"

definition large_fresh :: "int2 list" where
  "large_fresh = replicate 8 \<lparr>coord_x = 7, coord_y = 7\<rparr>"

text \<open>
  A well-formed matrix with two rows and \<open>2\<^sup>3\<^sup>1 - 1\<close> nonzeros, all of them in the last
  row, for one thread: \<open>m + nnz\<close> is not an \<open>int\<close>.
\<close>

definition wide_row_offsets :: "int list" where
  "wide_row_offsets = [0, 0, 2147483647]"

definition wide_column_indices :: "int list" where
  "wide_column_indices = replicate 2147483647 0"

definition wide_values :: "int list" where
  "wide_values = replicate 2147483647 1"

definition wide_fresh :: "int2 list" where
  "wide_fresh = [\<lparr>coord_x = 7, coord_y = 7\<rparr>]"

definition wide_end :: "int2 list" where
  "wide_end = [\<lparr>coord_x = 2, coord_y = 2147483647\<rparr>]"

text \<open>
  A well-formed matrix with one row and \<open>2\<^sup>3\<^sup>1 - 2\<close> nonzeros, for two threads: \<open>m + nnz\<close> is
  an \<open>int\<close>, \<open>m + nnz + P\<close> is not.
\<close>

definition long_row_offsets :: "int list" where
  "long_row_offsets = [0, 2147483646]"

definition long_fresh :: "int2 list" where
  "long_fresh = replicate 2 \<lparr>coord_x = 7, coord_y = 7\<rparr>"

section \<open>Proofs\<close>

subsection \<open>Basic facts\<close>

declare for_loop.simps [simp del]

lemma and_then_Inr [simp]: "and_then (Inr v) f = f v"
  by (simp add: and_then_def)

lemma and_then_Inl [simp]: "and_then (Inl e) f = Inl e"
  by (simp add: and_then_def)

lemma load_in_range [simp]:
  "0 \<le> i \<Longrightarrow> i < int (length xs) \<Longrightarrow> load arr xs i = Inr (xs ! nat i)"
  by (simp add: load_def)

lemma store_in_range [simp]:
  "0 \<le> i \<Longrightarrow> i < int (length xs) \<Longrightarrow> store arr xs i v = Inr (xs[nat i := v])"
  by (simp add: store_def)

lemma for_loop_done: "n \<le> i \<Longrightarrow> for_loop i n body s = Inr (i, s)"
  by (simp add: for_loop.simps)

lemma for_loop_step:
  "i < n \<Longrightarrow> body i s = Inr s' \<Longrightarrow> for_loop i n body s = for_loop (i + 1) n body s'"
  by (subst for_loop.simps) simp

lemma for_loop_invariant:
  assumes "I i s" and "i \<le> n"
    and step: "\<And>k t. i \<le> k \<Longrightarrow> k < n \<Longrightarrow> I k t \<Longrightarrow> \<exists>t'. body k t = Inr t' \<and> I (k + 1) t'"
  shows "\<exists>s'. for_loop i n body s = Inr (n, s') \<and> I n s'"
  using assms(1,2) step
proof (induction i n body s rule: for_loop.induct)
  case (1 i n body s)
  show ?case
  proof (cases "i < n")
    case True
    from "1.prems"(3) [of i s] True "1.prems"(1)
    obtain t' where t': "body i s = Inr t'" "I (i + 1) t'" by auto
    have "\<exists>s'. for_loop (i + 1) n body t' = Inr (n, s') \<and> I n s'"
    proof (rule "1.IH" [OF True t'(1) t'(2)])
      show "i + 1 \<le> n" using True by simp
    next
      fix k t assume "i + 1 \<le> k" "k < n" "I k t"
      then show "\<exists>t'. body k t = Inr t' \<and> I (k + 1) t'"
        using "1.prems"(3) [of k t] by simp
    qed
    then show ?thesis using for_loop_step [of i n body s t'] True t'(1) by simp
  next
    case False
    with "1.prems"(2) have "i = n" by simp
    then show ?thesis using "1.prems"(1) by (simp add: for_loop_done)
  qed
qed

subsection \<open>32-bit arithmetic\<close>

lemma wrap32_id: "- (2 ^ 31) \<le> i \<Longrightarrow> i < 2 ^ 31 \<Longrightarrow> wrap32 i = i"
  by (simp add: wrap32_def)

lemma wrap32_range: "- (2 ^ 31) \<le> wrap32 i" "wrap32 i < 2 ^ 31"
  by (simp_all add: wrap32_def)

lemma wrap32_overflow: "2 ^ 31 \<le> i \<Longrightarrow> i < 2 ^ 32 \<Longrightarrow> wrap32 i = i - 2 ^ 32"
proof -
  assume i: "2 ^ 31 \<le> i" "i < 2 ^ 32"
  have "(i + 2 ^ 31) mod 2 ^ 32 = (i + 2 ^ 31 - 2 ^ 32) mod 2 ^ 32"
    by (simp only: minus_mod_self2)
  also have "\<dots> = i + 2 ^ 31 - 2 ^ 32" using i by (intro mod_pos_pos_trivial) simp_all
  finally show ?thesis by (simp add: wrap32_def)
qed

lemma wrap32_add_left: "wrap32 (wrap32 a + b) = wrap32 (a + b)"
proof -
  have "wrap32 (wrap32 a + b) = ((a + 2 ^ 31) mod 2 ^ 32 + b) mod 2 ^ 32 - 2 ^ 31"
    by (simp add: wrap32_def)
  also have "((a + 2 ^ 31) mod 2 ^ 32 + b) mod 2 ^ 32 = (a + 2 ^ 31 + b) mod 2 ^ 32"
    by (rule mod_add_left_eq)
  also have "a + 2 ^ 31 + b = a + b + 2 ^ 31" by simp
  finally show ?thesis by (simp only: wrap32_def)
qed

lemma counting_subscript_0: "- (2 ^ 31) \<le> n \<Longrightarrow> n < 2 ^ 31 \<Longrightarrow> counting_subscript 0 n = n"
  by (simp add: counting_subscript_def wrap32_id)

subsection \<open>The search\<close>

text \<open>
  The path properties of the search, when the number of rows is small enough for the sum
  of two row indices to be an \<open>int\<close>.
\<close>

lemma MergePathSearch_loop_path:
  assumes len: "length ro = nat m + 1" and m: "m \<le> 2 ^ 30"
    and d: "0 \<le> d" "d < 2 ^ 31"
    and x: "0 \<le> x_min" "x_min \<le> x_max" "x_max \<le> m"
    and lo: "ro ! nat x_min + x_min \<le> d"
    and hi: "x_max < m \<longrightarrow> d < ro ! nat (x_max + 1) + x_max + 1"
  shows "\<exists>i. MergePathSearch_loop d (row_end_offsets ro) (counting_subscript 0) x_min x_max
             = Some (Inr i)
           \<and> x_min \<le> i \<and> i \<le> x_max \<and> ro ! nat i + i \<le> d
           \<and> (i < m \<longrightarrow> d < ro ! nat (i + 1) + i + 1)"
  using x lo hi
proof (induction "nat (x_max - x_min)" arbitrary: x_min x_max rule: less_induct)
  case less
  show ?case
  proof (cases "x_min < x_max")
    case False
    with less.prems have "x_min = x_max" by simp
    with less.prems show ?thesis
      by (subst MergePathSearch_loop.simps) simp
  next
    case True
    define p where "p = (x_min + x_max) div 2"
    have p: "x_min \<le> p" "p < x_max" using True by (auto simp: p_def)
    have sum: "x_min + x_max < 2 ^ 31" using True less.prems(3) m by simp
    have wp: "wrap32 (x_min + x_max) div 2 = p"
      using less.prems(1) True sum by (simp add: p_def wrap32_id)
    have wn: "wrap32 (p + 1) = p + 1"
      using p less.prems(1,3) m by (intro wrap32_id) simp_all
    have wb: "counting_subscript 0 (wrap32 (wrap32 (d - p) - 1)) = d - p - 1"
    proof -
      have "wrap32 (d - p) = d - p" using d p less.prems(1,3) m by (intro wrap32_id) simp_all
      moreover have "wrap32 (d - p - 1) = d - p - 1"
        using d p less.prems(1,3) m by (intro wrap32_id) simp_all
      moreover have "counting_subscript 0 (d - p - 1) = d - p - 1"
        using d p less.prems(1,3) m by (intro counting_subscript_0) simp_all
      ultimately show ?thesis by simp
    qed
    have ld: "row_end_offsets ro p = Inr (ro ! nat (p + 1))"
      using p less.prems len by (simp add: row_end_offsets_def)
    have unfold: "MergePathSearch_loop d (row_end_offsets ro) (counting_subscript 0) x_min x_max
        = (if ro ! nat (p + 1) \<le> d - p - 1
           then MergePathSearch_loop d (row_end_offsets ro) (counting_subscript 0) (p + 1) x_max
           else MergePathSearch_loop d (row_end_offsets ro) (counting_subscript 0) x_min p)"
      using True by (subst MergePathSearch_loop.simps) (simp add: wp wn wb ld Let_def)
    show ?thesis
    proof (cases "ro ! nat (p + 1) \<le> d - p - 1")
      case le: True
      have "\<exists>i. MergePathSearch_loop d (row_end_offsets ro) (counting_subscript 0) (p + 1) x_max
             = Some (Inr i)
           \<and> p + 1 \<le> i \<and> i \<le> x_max \<and> ro ! nat i + i \<le> d
           \<and> (i < m \<longrightarrow> d < ro ! nat (i + 1) + i + 1)"
        using less.prems p le by (intro less.hyps) simp_all
      then show ?thesis using unfold le p by auto
    next
      case gt: False
      have "\<exists>i. MergePathSearch_loop d (row_end_offsets ro) (counting_subscript 0) x_min p
             = Some (Inr i)
           \<and> x_min \<le> i \<and> i \<le> p \<and> ro ! nat i + i \<le> d
           \<and> (i < m \<longrightarrow> d < ro ! nat (i + 1) + i + 1)"
        using less.prems p gt by (intro less.hyps) simp_all
      then show ?thesis using unfold gt p by auto
    qed
  qed
qed

lemma wf_offsets_nth_mono:
  assumes "wf_offsets m nnz ro" and "0 \<le> i" and "i \<le> j" and "j \<le> m"
  shows "ro ! nat i \<le> ro ! nat j"
proof -
  have "sorted ro" "nat j < length ro" "nat i \<le> nat j"
    using assms by (auto simp: wf_offsets_def)
  then show ?thesis by (simp add: sorted_nth_mono)
qed

lemma wf_offsets_bounds:
  assumes "wf_offsets m nnz ro" and "0 \<le> i" and "i \<le> m"
  shows "0 \<le> ro ! nat i" and "ro ! nat i \<le> nnz"
proof -
  have "ro ! nat 0 \<le> ro ! nat i" using assms by (intro wf_offsets_nth_mono [OF assms(1)]) auto
  then show "0 \<le> ro ! nat i" using assms(1) by (simp add: wf_offsets_def)
  have "ro ! nat i \<le> ro ! nat m" using assms by (intro wf_offsets_nth_mono [OF assms(1)]) auto
  then show "ro ! nat i \<le> nnz" using assms(1) by (simp add: wf_offsets_def)
qed

lemma ne_empty_by_mem: "x \<in> A \<Longrightarrow> A \<noteq> {}"
  by blast

lemma MergePathSearch_path:
  assumes wf: "wf_offsets m nnz ro" and d: "0 \<le> d" "d \<le> m + nnz"
    and fit: "m \<le> 2 ^ 30" "nnz < 2 ^ 31" "d < 2 ^ 31"
  shows "\<exists>i. MergePathSearch d (row_end_offsets ro) (counting_subscript 0) m nnz
              = Inr \<lparr>coord_x = i, coord_y = d - i\<rparr>
           \<and> max (d - nnz) 0 \<le> i \<and> i \<le> min d m \<and> ro ! nat i + i \<le> d
           \<and> (i < m \<longrightarrow> d < ro ! nat (i + 1) + i + 1)"
proof -
  let ?lo = "max (d - nnz) 0" and ?hi = "min d m"
  have m: "1 \<le> m" "0 \<le> nnz" "length ro = nat m + 1" using wf by (auto simp: wf_offsets_def)
  have lo: "0 \<le> ?lo" "?lo \<le> ?hi" "?hi \<le> m" using d m by auto
  have w: "wrap32 (d - nnz) = d - nnz" using d fit m by (intro wrap32_id) simp_all
  have "ro ! nat ?lo \<le> nnz" using wf_offsets_bounds(2) [OF wf, of ?lo] lo by simp
  moreover have "ro ! nat 0 = 0" using wf by (simp add: wf_offsets_def)
  ultimately have start: "ro ! nat ?lo + ?lo \<le> d"
    using d by (cases "d - nnz \<le> 0") (simp_all add: max_def)
  have stop: "?hi < m \<longrightarrow> d < ro ! nat (?hi + 1) + ?hi + 1"
  proof
    assume h: "?hi < m"
    then have "0 \<le> ro ! nat (?hi + 1)" using wf_offsets_bounds(1) [OF wf, of "?hi + 1"] lo by simp
    then show "d < ro ! nat (?hi + 1) + ?hi + 1" using h by (simp add: min_def split: if_splits)
  qed
  from MergePathSearch_loop_path [OF m(3) fit(1) d(1) fit(3) lo(1) lo(2) lo(3) start stop]
  obtain i where i: "MergePathSearch_loop d (row_end_offsets ro) (counting_subscript 0) ?lo ?hi
        = Some (Inr i)"
      "?lo \<le> i" "i \<le> ?hi" "ro ! nat i + i \<le> d" "i < m \<longrightarrow> d < ro ! nat (i + 1) + i + 1"
    by blast
  have "min i m = i" using i(3) by simp
  moreover have "wrap32 (d - i) = d - i" using i(2,3) d fit lo by (intro wrap32_id) simp_all
  ultimately have "MergePathSearch d (row_end_offsets ro) (counting_subscript 0) m nnz
              = Inr \<lparr>coord_x = i, coord_y = d - i\<rparr>"
    using i(1) by (simp add: MergePathSearch_def w)
  then show ?thesis using i by blast
qed

lemma merge_path_spec_eq:
  assumes wf: "wf_offsets m nnz ro"
    and i: "max (d - nnz) 0 \<le> i" "i \<le> min d m" "ro ! nat i + i \<le> d"
      "i < m \<longrightarrow> d < ro ! nat (i + 1) + i + 1"
  shows "merge_path_spec m nnz ro d = \<lparr>coord_x = i, coord_y = d - i\<rparr>"
proof -
  let ?S = "set (filter (\<lambda>i. ro ! nat i \<le> d - i) [max 0 (d - nnz)..min d m])"
  have "Max ?S = i"
  proof (rule Max_eqI)
    show "finite ?S" by (rule finite_set)
    show "i \<in> ?S" using i by auto
    fix k assume k: "k \<in> ?S"
    show "k \<le> i"
    proof (rule ccontr)
      assume "\<not> k \<le> i"
      then have ik: "i + 1 \<le> k" by simp
      have km: "k \<le> m" "ro ! nat k + k \<le> d" using k by auto
      have "ro ! nat (i + 1) \<le> ro ! nat k"
        using wf_offsets_nth_mono [OF wf, of "i + 1" k] ik km i(1) by simp
      moreover have "d < ro ! nat (i + 1) + i + 1" using i(4) ik km by simp
      ultimately show False using km ik by simp
    qed
  qed
  then show ?thesis by (simp add: merge_path_spec_def)
qed

text \<open>
  The specification's coordinate is a point of the merge path whatever the sizes are: its
  characterisation does not depend on the machine arithmetic.
\<close>

lemma merge_path_spec_char:
  assumes wf: "wf_offsets m nnz ro" and d: "0 \<le> d" "d \<le> m + nnz"
  shows "\<exists>i. merge_path_spec m nnz ro d = \<lparr>coord_x = i, coord_y = d - i\<rparr>
           \<and> max (d - nnz) 0 \<le> i \<and> i \<le> min d m \<and> ro ! nat i + i \<le> d
           \<and> (i < m \<longrightarrow> d < ro ! nat (i + 1) + i + 1)"
proof -
  let ?lo = "max (d - nnz) 0" and ?hi = "min d m"
  let ?S = "set (filter (\<lambda>i. ro ! nat i \<le> d - i) [max 0 (d - nnz)..min d m])"
  have m: "1 \<le> m" "0 \<le> nnz" using wf by (auto simp: wf_offsets_def)
  have lo: "0 \<le> ?lo" "?lo \<le> ?hi" "?hi \<le> m" using d m by auto
  have "ro ! nat ?lo \<le> nnz" using wf_offsets_bounds(2) [OF wf, of ?lo] lo by simp
  moreover have "ro ! nat 0 = 0" using wf by (simp add: wf_offsets_def)
  ultimately have start: "ro ! nat ?lo + ?lo \<le> d"
    using d by (cases "d - nnz \<le> 0") (simp_all add: max_def)
  then have "max 0 (d - nnz) \<in> ?S" using lo by (simp add: max.commute)
  then have ne: "?S \<noteq> {}" by (rule ne_empty_by_mem)
  define i where "i = Max ?S"
  have "i \<in> ?S" unfolding i_def by (rule Max_in [OF finite_set ne])
  then have i: "?lo \<le> i" "i \<le> ?hi" "ro ! nat i + i \<le> d" by (auto simp: max.commute)
  have top: "d < ro ! nat (i + 1) + i + 1" if "i < m"
  proof (rule ccontr)
    assume "\<not> d < ro ! nat (i + 1) + i + 1"
    then have le: "ro ! nat (i + 1) + (i + 1) \<le> d" by simp
    have "0 \<le> ro ! nat (i + 1)" using wf_offsets_bounds(1) [OF wf, of "i + 1"] that i lo by simp
    with le have "i + 1 \<le> d" by simp
    then have "i + 1 \<in> ?S" using i that le by (auto simp: max.commute)
    then have "i + 1 \<le> Max ?S" by (rule Max_ge [OF finite_set])
    then show False by (simp add: i_def)
  qed
  have "merge_path_spec m nnz ro d = \<lparr>coord_x = i, coord_y = d - i\<rparr>"
    by (simp add: merge_path_spec_def i_def Let_def)
  with i top show ?thesis by blast
qed

lemma MergePathSearch_spec:
  assumes wf: "wf_offsets m nnz ro" and d: "0 \<le> d" "d \<le> m + nnz"
    and fit: "m \<le> 2 ^ 30" "nnz < 2 ^ 31" "d < 2 ^ 31"
  shows "MergePathSearch d (row_end_offsets ro) (counting_subscript 0) m nnz
           = Inr (merge_path_spec m nnz ro d)"
  using MergePathSearch_path [OF assms] merge_path_spec_eq [OF wf] by force

lemma merge_path_spec_on_path:
  assumes wf: "wf_offsets m nnz ro" and d: "0 \<le> d" "d \<le> m + nnz"
  shows "on_path m ro d (merge_path_spec m nnz ro d)"
  using merge_path_spec_char [OF assms] by (auto simp: on_path_def)

lemma merge_path_spec_0:
  assumes wf: "wf_offsets m nnz ro"
  shows "merge_path_spec m nnz ro 0 = \<lparr>coord_x = 0, coord_y = 0\<rparr>"
proof -
  have "0 \<le> m + nnz" using wf by (simp add: wf_offsets_def)
  from merge_path_spec_char [OF wf _ this]
  show ?thesis by force
qed

lemma merge_path_spec_end:
  assumes wf: "wf_offsets m nnz ro"
  shows "merge_path_spec m nnz ro (m + nnz) = \<lparr>coord_x = m, coord_y = nnz\<rparr>"
proof -
  have "0 \<le> m + nnz" "0 \<le> nnz" using wf by (simp_all add: wf_offsets_def)
  from merge_path_spec_char [OF wf this(1)] this(2)
  show ?thesis by force
qed

lemma large_wf_offsets: "wf_offsets 1500000000 100000000 large_row_offsets"
  by (simp add: wf_offsets_def large_row_offsets_def sorted_append nth_append)

lemma large_row_offsets_nth:
  "0 \<le> i \<Longrightarrow> i < 1500000000 \<Longrightarrow> large_row_offsets ! nat i = 0"
  by (simp add: large_row_offsets_def nth_append)

lemma large_row_end_offsets:
  "0 \<le> i \<Longrightarrow> i < 1499999999 \<Longrightarrow> row_end_offsets large_row_offsets i = Inr 0"
  by (simp add: row_end_offsets_def load_def large_row_offsets_def nth_append)

lemma row_end_offsets_negative:
  "i < - 1 \<Longrightarrow> row_end_offsets ro i = Inl (OutOfBounds RowOffsets)"
  by (simp add: row_end_offsets_def load_def)

text \<open>
  Claim C2 as stated fails. On the matrix with 1499999999 empty rows followed by one row
  of 100000000 nonzeros, the search on diagonal 1400000000 starts from the range
  \<open>[1300000000, 1400000000]\<close>; the sum of its two ends wraps around, the pivot is
  \<open>-797483648\<close>, and the read of \<open>row_end_offsets\<close> at the pivot is out of bounds.
\<close>

theorem MergePathSearch_contract_counterexample:
  "wf_offsets 1500000000 100000000 large_row_offsets
   \<and> (0::int) \<le> 1400000000 \<and> (1400000000::int) \<le> 1500000000 + 100000000
   \<and> MergePathSearch 1400000000 (row_end_offsets large_row_offsets) (counting_subscript 0)
         1500000000 100000000
       = Inl (OutOfBounds RowOffsets)"
proof -
  have "wrap32 (1300000000 + 1400000000) div 2 = - 797483648" by (simp add: wrap32_def)
  then have "MergePathSearch_loop 1400000000 (row_end_offsets large_row_offsets)
      (counting_subscript 0) 1300000000 1400000000 = Some (Inl (OutOfBounds RowOffsets))"
    by (subst MergePathSearch_loop.simps) (simp add: row_end_offsets_negative)
  moreover have "max (wrap32 (1400000000 - 100000000)) 0 = 1300000000"
    by (simp add: wrap32_def)
  ultimately have "MergePathSearch 1400000000 (row_end_offsets large_row_offsets)
      (counting_subscript 0) 1500000000 100000000 = Inl (OutOfBounds RowOffsets)"
    by (simp add: MergePathSearch_def)
  with large_wf_offsets show ?thesis by simp
qed

subsection \<open>The search does not read the first offset\<close>

lemma row_end_offsets_update_0:
  "i \<noteq> - 1 \<Longrightarrow> row_end_offsets (ro[0 := v]) i = row_end_offsets ro i"
  by (auto simp: row_end_offsets_def load_def nat_add_distrib)

lemma MergePathSearch_loop_update_0:
  assumes "0 \<le> x_min" and "x_max < 2 ^ 31"
  shows "MergePathSearch_loop d (row_end_offsets (ro[0 := v])) b x_min x_max
       = MergePathSearch_loop d (row_end_offsets ro) b x_min x_max"
  using assms
proof (induction "nat (x_max - x_min)" arbitrary: x_min x_max rule: less_induct)
  case less
  show ?case
  proof (cases "x_min < x_max")
    case False
    then show ?thesis
      by (simp add: MergePathSearch_loop.simps [of d _ b x_min x_max])
  next
    case True
    define p where "p = wrap32 (x_min + x_max) div 2"
    show ?thesis
    proof (cases "x_min + x_max < 2 ^ 31")
      case small: True
      have w: "wrap32 (x_min + x_max) = x_min + x_max"
        using small True less.prems by (intro wrap32_id) simp_all
      have p: "x_min \<le> p" "p < x_max" using True by (auto simp: p_def w)
      have a: "row_end_offsets (ro[0 := v]) p = row_end_offsets ro p"
        using p less.prems by (intro row_end_offsets_update_0) simp
      have wn: "wrap32 (p + 1) = p + 1" using p less.prems by (intro wrap32_id) simp_all
      have up: "MergePathSearch_loop d (row_end_offsets (ro[0 := v])) b (p + 1) x_max
          = MergePathSearch_loop d (row_end_offsets ro) b (p + 1) x_max"
        using p less.prems by (intro less.hyps) simp_all
      have down: "MergePathSearch_loop d (row_end_offsets (ro[0 := v])) b x_min p
          = MergePathSearch_loop d (row_end_offsets ro) b x_min p"
        using p less.prems by (intro less.hyps) simp_all
      show ?thesis
        using True a up down
        by (cases "row_end_offsets ro p")
          (simp_all add: MergePathSearch_loop.simps [of d _ b x_min x_max] p_def [symmetric] wn
            Let_def)
    next
      case False
      then have s: "2 ^ 31 \<le> x_min + x_max" "x_min + x_max < 2 ^ 32"
        using True less.prems by simp_all
      have "wrap32 (x_min + x_max) = x_min + x_max - 2 ^ 32" by (rule wrap32_overflow [OF s])
      then have "p < - 1" using True less.prems by (simp add: p_def)
      then have "row_end_offsets (ro[0 := v]) p = Inl (OutOfBounds RowOffsets)"
        "row_end_offsets ro p = Inl (OutOfBounds RowOffsets)"
        by (simp_all add: row_end_offsets_negative)
      then show ?thesis
        using True
        by (simp add: MergePathSearch_loop.simps [of d _ b x_min x_max] p_def [symmetric] Let_def)
    qed
  qed
qed

lemma MergePathSearch_update_0:
  assumes "d < 2 ^ 31"
  shows "MergePathSearch d (row_end_offsets (ro[0 := v])) b a_len b_len
       = MergePathSearch d (row_end_offsets ro) b a_len b_len"
proof -
  have "MergePathSearch_loop d (row_end_offsets (ro[0 := v])) b (max (wrap32 (d - b_len)) 0)
          (min d a_len)
     = MergePathSearch_loop d (row_end_offsets ro) b (max (wrap32 (d - b_len)) 0) (min d a_len)"
    using assms by (intro MergePathSearch_loop_update_0) simp_all
  then show ?thesis by (simp add: MergePathSearch_def)
qed

lemma min_wrap32_less: "min (wrap32 i) j < 2 ^ 31"
  using wrap32_range(2) [of i] by simp

lemma MergePathSearch_min_update_0:
  "MergePathSearch (min (wrap32 i) j) (row_end_offsets (ro[0 := v])) b a_len b_len
     = MergePathSearch (min (wrap32 i) j) (row_end_offsets ro) b a_len b_len"
  by (rule MergePathSearch_update_0 [OF min_wrap32_less])

lemma partition_thread_update_0:
  "partition_thread P m nnz (ro[0 := v]) = partition_thread P m nnz ro"
  by (intro ext) (simp add: partition_thread_def Let_def MergePathSearch_min_update_0)

text \<open>
  Claim C10. The partition does not depend on \<open>row_offsets[0]\<close>: replacing that cell by
  any value \<open>v\<close> leaves the result of the partitioner (both coordinate arrays, or the
  error) unchanged, for every thread count and every input.
\<close>

theorem partition_independent_of_first_offset:
  "OmpMergePartitionMatrix thread_coords thread_coord_ends num_threads num_rows num_nonzeros
       (row_offsets[0 := v])
     = OmpMergePartitionMatrix thread_coords thread_coord_ends num_threads num_rows num_nonzeros
       row_offsets"
  by (simp add: OmpMergePartitionMatrix_def partition_thread_update_0)

text \<open>
  Claim C2, amended. For a well-formed row-offset array with \<open>m \<le> 2\<^sup>3\<^sup>0\<close> rows, \<open>nnz\<close> and
  the diagonal \<open>d\<close> values of type \<open>int\<close>, and \<open>d\<close> in \<open>[0, m + nnz]\<close>, the search over
  \<open>row_offsets + 1\<close> and the counting iterator returns the coordinate \<open>(i, d - i)\<close> where
  \<open>i\<close> is the largest value in \<open>[max(0, d - nnz), min(d, m)]\<close> with
  \<open>row_offsets[i] \<le> d - i\<close>; it returns \<open>(0, 0)\<close> for \<open>d = 0\<close> and, when \<open>m + nnz\<close> is an
  \<open>int\<close>, \<open>(m, nnz)\<close> for \<open>d = m + nnz\<close>.
\<close>

theorem MergePathSearch_contract:
  assumes "wf_offsets m nnz row_offsets" and "0 \<le> d" and "d \<le> m + nnz"
    and "m \<le> 2 ^ 30" and "nnz \<le> 2 ^ 31 - 1" and "d \<le> 2 ^ 31 - 1"
  shows "MergePathSearch d (row_end_offsets row_offsets) (counting_subscript 0) m nnz
           = Inr (merge_path_spec m nnz row_offsets d)
         \<and> coord_x (merge_path_spec m nnz row_offsets d)
             + coord_y (merge_path_spec m nnz row_offsets d) = d
         \<and> MergePathSearch 0 (row_end_offsets row_offsets) (counting_subscript 0) m nnz
           = Inr \<lparr>coord_x = 0, coord_y = 0\<rparr>
         \<and> (m + nnz \<le> 2 ^ 31 - 1 \<longrightarrow>
              MergePathSearch (m + nnz) (row_end_offsets row_offsets) (counting_subscript 0) m nnz
                = Inr \<lparr>coord_x = m, coord_y = nnz\<rparr>)"
proof -
  have M: "0 \<le> m + nnz" using assms(1) by (simp add: wf_offsets_def)
  have fit: "nnz < 2 ^ 31" "d < 2 ^ 31" using assms(5,6) by simp_all
  have "coord_x (merge_path_spec m nnz row_offsets d)
             + coord_y (merge_path_spec m nnz row_offsets d) = d"
    by (simp add: merge_path_spec_def Let_def)
  moreover have "MergePathSearch d (row_end_offsets row_offsets) (counting_subscript 0) m nnz
           = Inr (merge_path_spec m nnz row_offsets d)"
    by (rule MergePathSearch_spec [OF assms(1,2,3,4) fit])
  moreover have "MergePathSearch 0 (row_end_offsets row_offsets) (counting_subscript 0) m nnz
           = Inr \<lparr>coord_x = 0, coord_y = 0\<rparr>"
    using MergePathSearch_spec [OF assms(1) _ M assms(4) fit(1), of ] merge_path_spec_0 [OF assms(1)]
    by simp
  moreover have "MergePathSearch (m + nnz) (row_end_offsets row_offsets) (counting_subscript 0)
      m nnz = Inr \<lparr>coord_x = m, coord_y = nnz\<rparr>" if "m + nnz \<le> 2 ^ 31 - 1"
    using MergePathSearch_spec [OF assms(1) M _ assms(4) fit(1)] merge_path_spec_end [OF assms(1)]
      that by simp
  ultimately show ?thesis by blast
qed

theorem MergePathSearch_contract_witness:
  "wf_offsets 4 6 s2_row_offsets \<and> (0::int) \<le> 4 \<and> (4::int) \<le> 4 + 6
   \<and> (4::int) \<le> 2 ^ 30 \<and> (6::int) \<le> 2 ^ 31 - 1 \<and> (4::int) \<le> 2 ^ 31 - 1
   \<and> MergePathSearch 4 (row_end_offsets s2_row_offsets) (counting_subscript 0) 4 6
       = Inr (merge_path_spec 4 6 s2_row_offsets 4)
   \<and> MergePathSearch 0 (row_end_offsets s2_row_offsets) (counting_subscript 0) 4 6
       = Inr \<lparr>coord_x = 0, coord_y = 0\<rparr>
   \<and> MergePathSearch (4 + 6) (row_end_offsets s2_row_offsets) (counting_subscript 0) 4 6
       = Inr \<lparr>coord_x = 4, coord_y = 6\<rparr>"
proof -
  have h: "wf_offsets 4 6 s2_row_offsets" by (simp add: wf_offsets_def s2_row_offsets_def)
  from MergePathSearch_contract [OF h, of 4] h show ?thesis by simp
qed

subsection \<open>The partitioner\<close>

lemma quantum_eq:
  assumes "0 < P"
  shows "quantum M P = (M + P - 1) div P"
proof -
  define a r where "a = - M div P" and "r = - M mod P"
  have r: "0 \<le> r" "r < P" using assms by (simp_all add: r_def)
  have "- M = P * a + r" by (simp add: a_def r_def)
  then have "M + P - 1 = P * (- a) + (P - 1 - r)" by (simp add: algebra_simps)
  then have "(M + P - 1) div P = - a"
    using r int_div_pos_eq [of "M + P - 1" P "- a" "P - 1 - r"] by simp
  moreover have "quantum M P = - a"
    unfolding quantum_def a_def by (rule ceiling_divide_eq_div)
  ultimately show ?thesis by simp
qed

lemma tdiv_nonneg: "0 \<le> a \<Longrightarrow> 0 < b \<Longrightarrow> tdiv a b = a div b"
  by (cases "a = 0") (simp_all add: tdiv_def)

lemma items_per_thread_eq:
  assumes "0 \<le> M" and "1 \<le> P"
  shows "tdiv (M + P - 1) P = quantum M P"
  using assms by (simp add: tdiv_nonneg quantum_eq)

lemma quantum_nonneg: "0 \<le> M \<Longrightarrow> 1 \<le> P \<Longrightarrow> 0 \<le> quantum M P"
  by (simp add: quantum_eq pos_imp_zdiv_nonneg_iff)

lemma quantum_covers:
  assumes "1 \<le> P"
  shows "M \<le> quantum M P * P"
proof -
  have "(M + P - 1) mod P < P" using assms by simp
  moreover have "M + P - 1 = (M + P - 1) div P * P + (M + P - 1) mod P" by simp
  ultimately have "M \<le> (M + P - 1) div P * P" by linarith
  then show ?thesis using assms by (simp add: quantum_eq)
qed

lemma quantum_times_le:
  assumes "1 \<le> P"
  shows "quantum M P * P \<le> M + P - 1"
proof -
  have "0 \<le> (M + P - 1) mod P" using assms by simp
  moreover have "M + P - 1 = (M + P - 1) div P * P + (M + P - 1) mod P" by simp
  ultimately have "(M + P - 1) div P * P \<le> M + P - 1" by linarith
  then show ?thesis using assms by (simp add: quantum_eq)
qed

lemma wrap32_diff_left: "wrap32 (wrap32 a - b) = wrap32 (a - b)"
  using wrap32_add_left [of a "- b"] by simp

text \<open>
  When \<open>m + nnz + P - 1\<close> is an \<open>int\<close>, no operation of the loop body wraps around.
\<close>

lemma partition_thread_result:
  assumes wf: "wf_offsets m nnz ro" and P: "1 \<le> P" and k: "0 \<le> k" "k < P"
    and len: "length tc = nat P" "length tce = nat P"
    and fit: "m \<le> 2 ^ 30" "m + nnz + P - 1 < 2 ^ 31"
  shows "partition_thread P m nnz ro k (tc, tce)
     = Inr (tc[nat k := merge_path_spec m nnz ro (min (quantum (m + nnz) P * k) (m + nnz))],
            tce[nat k := merge_path_spec m nnz ro (min (quantum (m + nnz) P * (k + 1)) (m + nnz))])"
proof -
  let ?M = "m + nnz" and ?q = "quantum (m + nnz) P"
  have M: "0 \<le> ?M" "0 \<le> nnz" using wf by (simp_all add: wf_offsets_def)
  have Mfit: "?M < 2 ^ 31" "nnz < 2 ^ 31" using fit(2) P wf by (simp_all add: wf_offsets_def)
  have q: "0 \<le> ?q" using M(1) P by (rule quantum_nonneg)
  have qP: "?q * P \<le> ?M + P - 1" using P by (rule quantum_times_le)
  have wM: "wrap32 ?M = ?M" using M Mfit by (intro wrap32_id) simp_all
  have "wrap32 (wrap32 (?M + P) - 1) = wrap32 (?M + P - 1)" by (rule wrap32_diff_left)
  also have "\<dots> = ?M + P - 1" using M P fit(2) by (intro wrap32_id) simp_all
  finally have wMP: "wrap32 (wrap32 (?M + P) - 1) = ?M + P - 1" .
  have ipt: "tdiv (?M + P - 1) P = ?q" using M(1) P by (rule items_per_thread_eq)
  have qk: "0 \<le> ?q * k" "?q * k \<le> ?q * P" "?q * (k + 1) \<le> ?q * P"
    using q k by (simp_all add: mult_left_mono)
  have wqk: "wrap32 (?q * k) = ?q * k" using qk qP fit(2) by (intro wrap32_id) simp_all
  let ?s = "min (?q * k) ?M"
  have s: "0 \<le> ?s" "?s \<le> ?M" using M q k by simp_all
  have "?s + ?q \<le> ?q * (k + 1)" by (simp add: algebra_simps)
  then have wsq: "wrap32 (?s + ?q) = ?s + ?q"
    using s q qk qP fit(2) by (intro wrap32_id) simp_all
  let ?e = "min (?s + ?q) ?M"
  have e: "0 \<le> ?e" "?e \<le> ?M" using M q s by simp_all
  have sfit: "?s < 2 ^ 31" "?e < 2 ^ 31" using s e Mfit by simp_all
  have e_eq: "?e = min (?q * (k + 1)) ?M" using q by (simp add: algebra_simps min_def)
  have "partition_thread P m nnz ro k (tc, tce)
     = Inr (tc[nat k := merge_path_spec m nnz ro ?s], tce[nat k := merge_path_spec m nnz ro ?e])"
    using k len MergePathSearch_spec [OF wf s fit(1) Mfit(2) sfit(1)]
      MergePathSearch_spec [OF wf e fit(1) Mfit(2) sfit(2)]
    by (simp add: partition_thread_def Let_def wM wMP ipt wqk wsq)
  then show ?thesis by (simp only: e_eq)
qed

lemma OmpMergePartitionMatrix_result:
  assumes wf: "wf_offsets m nnz ro" and P: "1 \<le> P"
    and len: "length tc0 = nat P" "length tce0 = nat P"
    and fit: "m \<le> 2 ^ 30" "m + nnz + P - 1 < 2 ^ 31"
  shows "\<exists>tc tce. OmpMergePartitionMatrix tc0 tce0 P m nnz ro = Inr (tc, tce)
     \<and> length tc = nat P \<and> length tce = nat P
     \<and> (\<forall>t<nat P. tc ! t = merge_path_spec m nnz ro (min (quantum (m + nnz) P * int t) (m + nnz))
           \<and> tce ! t = merge_path_spec m nnz ro (min (quantum (m + nnz) P * (int t + 1)) (m + nnz)))"
proof -
  define I where "I k st \<longleftrightarrow> (case st of (tc, tce) \<Rightarrow>
      length tc = nat P \<and> length tce = nat P
      \<and> (\<forall>t<nat k. tc ! t = merge_path_spec m nnz ro (min (quantum (m + nnz) P * int t) (m + nnz))
           \<and> tce ! t = merge_path_spec m nnz ro (min (quantum (m + nnz) P * (int t + 1)) (m + nnz))))"
    for k :: int and st :: "int2 list \<times> int2 list"
  have "\<exists>s'. for_loop 0 P (partition_thread P m nnz ro) (tc0, tce0) = Inr (P, s') \<and> I P s'"
  proof (rule for_loop_invariant)
    show "I 0 (tc0, tce0)" using len by (simp add: I_def)
    show "0 \<le> P" using P by simp
    fix k st assume k: "0 \<le> k" "k < P" and inv: "I k st"
    obtain tc tce where st: "st = (tc, tce)" by (cases st)
    have l: "length tc = nat P" "length tce = nat P" using inv by (simp_all add: I_def st)
    have old: "\<And>t. t < nat k \<Longrightarrow>
        tc ! t = merge_path_spec m nnz ro (min (quantum (m + nnz) P * int t) (m + nnz))
        \<and> tce ! t = merge_path_spec m nnz ro (min (quantum (m + nnz) P * (int t + 1)) (m + nnz))"
      using inv by (simp add: I_def st)
    have nk: "nat (k + 1) = Suc (nat k)" "nat k < nat P" "int (nat k) = k" using k by simp_all
    have "I (k + 1) (tc[nat k := merge_path_spec m nnz ro (min (quantum (m + nnz) P * k) (m + nnz))],
            tce[nat k := merge_path_spec m nnz ro (min (quantum (m + nnz) P * (k + 1)) (m + nnz))])"
      using l old nk by (auto simp: I_def nth_list_update less_Suc_eq)
    then show "\<exists>t'. partition_thread P m nnz ro k st = Inr t' \<and> I (k + 1) t'"
      using partition_thread_result [OF wf P k l fit] by (simp add: st)
  qed
  then show ?thesis by (auto simp: OmpMergePartitionMatrix_def I_def)
qed

lemma for_loop_split:
  assumes "i \<le> k" and "for_loop i k body s = Inr (k, s')" and "k \<le> n"
  shows "for_loop i n body s = for_loop k n body s'"
  using assms
proof (induction i k body s rule: for_loop.induct)
  case (1 i k body s)
  show ?case
  proof (cases "i < k")
    case False
    with "1.prems" have "i = k" by simp
    with "1.prems"(2) show ?thesis by (simp add: for_loop_done)
  next
    case True
    show ?thesis
    proof (cases "body i s")
      case (Inl e)
      with True "1.prems"(2) show ?thesis by (simp add: for_loop.simps [of i k])
    next
      case (Inr t)
      have "for_loop (i + 1) k body t = Inr (k, s')"
        using "1.prems"(2) True Inr by (simp add: for_loop_step)
      from "1.IH" [OF True Inr _ this "1.prems"(3)] True
      have "for_loop (i + 1) n body t = for_loop k n body s'" by simp
      moreover have "i < n" using True "1.prems"(3) by simp
      ultimately show ?thesis using Inr by (simp add: for_loop_step)
    qed
  qed
qed

subsection \<open>The partitioner on the large inputs\<close>

text \<open>
  On the matrix with 1500000000 rows every row offset below the last is 0, so a search
  that does not wrap around moves \<open>x_min\<close> up to \<open>x_max\<close>.
\<close>

lemma large_loop:
  assumes "0 \<le> x_min" and "x_min \<le> x_max" and "x_max \<le> d" and "d \<le> 2 ^ 30"
  shows "MergePathSearch_loop d (row_end_offsets large_row_offsets) (counting_subscript 0)
           x_min x_max = Some (Inr x_max)"
  using assms(1,2,3)
proof (induction "nat (x_max - x_min)" arbitrary: x_min rule: less_induct)
  case less
  show ?case
  proof (cases "x_min < x_max")
    case False
    with less.prems have "x_min = x_max" by simp
    then show ?thesis by (subst MergePathSearch_loop.simps) simp
  next
    case True
    define p where "p = (x_min + x_max) div 2"
    have p: "x_min \<le> p" "p < x_max" using True by (auto simp: p_def)
    have wp: "wrap32 (x_min + x_max) div 2 = p"
      using less.prems True assms(4) by (simp add: p_def wrap32_id)
    have wn: "wrap32 (p + 1) = p + 1"
      using p less.prems assms(4) by (intro wrap32_id) simp_all
    have "wrap32 (d - p) = d - p" using p less.prems assms(4) by (intro wrap32_id) simp_all
    moreover have "wrap32 (d - p - 1) = d - p - 1"
      using p less.prems assms(4) by (intro wrap32_id) simp_all
    moreover have "counting_subscript 0 (d - p - 1) = d - p - 1"
      using p less.prems assms(4) by (intro counting_subscript_0) simp_all
    ultimately have wb: "counting_subscript 0 (wrap32 (wrap32 (d - p) - 1)) = d - p - 1" by simp
    have ld: "row_end_offsets large_row_offsets p = Inr 0"
      using p less.prems assms(4) by (intro large_row_end_offsets) simp_all
    have "MergePathSearch_loop d (row_end_offsets large_row_offsets) (counting_subscript 0)
           x_min x_max
        = MergePathSearch_loop d (row_end_offsets large_row_offsets) (counting_subscript 0)
           (p + 1) x_max"
      using True p less.prems
      by (subst MergePathSearch_loop.simps) (simp add: wp wn wb ld Let_def)
    also have "\<dots> = Some (Inr x_max)"
      using p less.prems by (intro less.hyps) simp_all
    finally show ?thesis .
  qed
qed

lemma large_search:
  assumes "0 \<le> d" and "d \<le> 2 ^ 30"
  shows "MergePathSearch d (row_end_offsets large_row_offsets) (counting_subscript 0)
           1500000000 100000000 = Inr \<lparr>coord_x = d, coord_y = 0\<rparr>"
proof -
  have w: "wrap32 (d - 100000000) = d - 100000000" using assms by (intro wrap32_id) simp_all
  have "MergePathSearch_loop d (row_end_offsets large_row_offsets) (counting_subscript 0)
           (max (d - 100000000) 0) d = Some (Inr d)"
    using assms by (intro large_loop) simp_all
  moreover have "min d 1500000000 = d" using assms by simp
  moreover have "wrap32 0 = 0" by (simp add: wrap32_def)
  ultimately show ?thesis by (simp add: MergePathSearch_def w)
qed

lemma large_search_fails:
  "MergePathSearch 1200000000 (row_end_offsets large_row_offsets) (counting_subscript 0)
     1500000000 100000000 = Inl (OutOfBounds RowOffsets)"
proof -
  have "wrap32 (1100000000 + 1200000000) div 2 = - 997483648" by (simp add: wrap32_def)
  then have "MergePathSearch_loop 1200000000 (row_end_offsets large_row_offsets)
      (counting_subscript 0) 1100000000 1200000000 = Some (Inl (OutOfBounds RowOffsets))"
    by (subst MergePathSearch_loop.simps) (simp add: row_end_offsets_negative)
  moreover have "max (wrap32 (1200000000 - 100000000)) 0 = 1100000000"
    by (simp add: wrap32_def)
  ultimately show ?thesis by (simp add: MergePathSearch_def)
qed

text \<open>
  With eight threads the quantum is 200000000. The searches of the threads 0 to 4 and the
  first search of thread 5 return; its second search, at diagonal 1200000000, adds
  1100000000 and 1200000000, and the pivot that has wrapped around is read below the
  array.
\<close>

lemma large_partition_fails:
  "OmpMergePartitionMatrix large_fresh large_fresh 8 1500000000 100000000 large_row_offsets
     = Inl (OutOfBounds RowOffsets)"
proof -
  have q: "tdiv 1600000007 8 = 200000000" by (simp add: tdiv_def)
  have M: "wrap32 1600000000 = 1600000000" "wrap32 1600000008 = 1600000008"
    "wrap32 1600000007 = 1600000007" by (simp_all add: wrap32_def)
  have ok: "partition_thread 8 1500000000 100000000 large_row_offsets k (tc, tce)
      = Inr (tc[nat k := \<lparr>coord_x = 200000000 * k, coord_y = 0\<rparr>],
             tce[nat k := \<lparr>coord_x = 200000000 * k + 200000000, coord_y = 0\<rparr>])"
    if "0 \<le> k" "k \<le> 4" "length tc = 8" "length tce = 8" for k tc tce
  proof -
    have a: "wrap32 (200000000 * k) = 200000000 * k" using that by (intro wrap32_id) simp_all
    have b: "wrap32 (200000000 * k + 200000000) = 200000000 * k + 200000000"
      using that by (intro wrap32_id) simp_all
    have c: "min (200000000 * k) 1600000000 = 200000000 * k"
      "min (200000000 * k + 200000000) 1600000000 = 200000000 * k + 200000000"
      using that by simp_all
    have "MergePathSearch (200000000 * k) (row_end_offsets large_row_offsets)
        (counting_subscript 0) 1500000000 100000000
        = Inr \<lparr>coord_x = 200000000 * k, coord_y = 0\<rparr>"
      using that by (intro large_search) simp_all
    moreover have "MergePathSearch (200000000 * k + 200000000) (row_end_offsets large_row_offsets)
        (counting_subscript 0) 1500000000 100000000
        = Inr \<lparr>coord_x = 200000000 * k + 200000000, coord_y = 0\<rparr>"
      using that by (intro large_search) simp_all
    ultimately show ?thesis
      using that by (simp add: partition_thread_def Let_def q M a b c)
  qed
  have bad: "partition_thread 8 1500000000 100000000 large_row_offsets 5 (tc, tce)
      = Inl (OutOfBounds RowOffsets)" if "length tc = 8" "length tce = 8" for tc tce
  proof -
    have "MergePathSearch 1000000000 (row_end_offsets large_row_offsets)
        (counting_subscript 0) 1500000000 100000000
        = Inr \<lparr>coord_x = 1000000000, coord_y = 0\<rparr>"
      by (intro large_search) simp_all
    then show ?thesis
      using that large_search_fails
      by (simp add: partition_thread_def Let_def q M) (simp add: wrap32_def)
  qed
  define I where "I k st \<longleftrightarrow> length (fst st) = 8 \<and> length (snd st) = 8"
    for k :: int and st :: "int2 list \<times> int2 list"
  have "\<exists>s'. for_loop 0 5 (partition_thread 8 1500000000 100000000 large_row_offsets)
          (large_fresh, large_fresh) = Inr (5, s') \<and> I 5 s'"
  proof (rule for_loop_invariant)
    show "I 0 (large_fresh, large_fresh)" by (simp add: I_def large_fresh_def)
    show "(0::int) \<le> 5" by simp
    fix k st assume k: "0 \<le> k" "k < 5" and "I k st"
    then obtain tc tce where st: "st = (tc, tce)" "length tc = 8" "length tce = 8"
      by (cases st) (simp add: I_def)
    from ok [OF k(1) _ st(2,3)] k(2)
    show "\<exists>t'. partition_thread 8 1500000000 100000000 large_row_offsets k st = Inr t'
        \<and> I (k + 1) t'"
      by (simp add: st I_def)
  qed
  then obtain s' where s': "for_loop 0 5 (partition_thread 8 1500000000 100000000 large_row_offsets)
          (large_fresh, large_fresh) = Inr (5, s')" "I 5 s'" by blast
  have "partition_thread 8 1500000000 100000000 large_row_offsets 5 s'
      = Inl (OutOfBounds RowOffsets)"
    using bad [of "fst s'" "snd s'"] s'(2) by (simp add: I_def)
  then have "for_loop 5 8 (partition_thread 8 1500000000 100000000 large_row_offsets) s'
      = Inl (OutOfBounds RowOffsets)"
    by (subst for_loop.simps) simp
  moreover have "for_loop 0 8 (partition_thread 8 1500000000 100000000 large_row_offsets)
          (large_fresh, large_fresh)
      = for_loop 5 8 (partition_thread 8 1500000000 100000000 large_row_offsets) s'"
    by (rule for_loop_split [OF _ s'(1)]) simp_all
  ultimately show ?thesis by (simp add: OmpMergePartitionMatrix_def)
qed

lemma wide_wf_offsets: "wf_offsets 2 2147483647 wide_row_offsets"
  by (simp add: wf_offsets_def wide_row_offsets_def)

text \<open>
  On the matrix with two rows \<open>num_rows + num_nonzeros\<close> wraps around to \<open>-2\<^sup>3\<^sup>1 + 1\<close>; both
  diagonals of the single thread are this number, and both searches return
  \<open>(2, 2\<^sup>3\<^sup>1 - 1)\<close> without entering the loop.
\<close>

lemma wide_partition:
  "OmpMergePartitionMatrix wide_fresh wide_fresh 1 2 2147483647 wide_row_offsets
     = Inr (wide_end, wide_end)"
  by code_simp

text \<open>
  Claim C3 as stated fails. On the matrix with 1500000000 rows and eight threads the
  partitioner produces no partition. On the matrix with two rows and \<open>2\<^sup>3\<^sup>1 - 1\<close> nonzeros
  and one thread the first start coordinate is \<open>(2, 2\<^sup>3\<^sup>1 - 1)\<close>, not \<open>(0, 0)\<close>.
\<close>

theorem partition_coverage_counterexample:
  "wf_offsets 1500000000 100000000 large_row_offsets \<and> (1::int) \<le> 8
   \<and> length large_fresh = nat 8
   \<and> OmpMergePartitionMatrix large_fresh large_fresh 8 1500000000 100000000 large_row_offsets
       = Inl (OutOfBounds RowOffsets)
   \<and> wf_offsets 2 2147483647 wide_row_offsets \<and> (1::int) \<le> 1
   \<and> length wide_fresh = nat 1
   \<and> OmpMergePartitionMatrix wide_fresh wide_fresh 1 2 2147483647 wide_row_offsets
       = Inr (wide_end, wide_end)
   \<and> wide_end ! 0 = \<lparr>coord_x = 2, coord_y = 2147483647\<rparr>
   \<and> wide_end ! 0 \<noteq> \<lparr>coord_x = 0, coord_y = 0\<rparr>"
  using large_wf_offsets large_partition_fails wide_wf_offsets wide_partition
  by (simp add: large_fresh_def wide_fresh_def wide_end_def)

text \<open>
  Claim C3, amended. For a well-formed row-offset array with \<open>m \<le> 2\<^sup>3\<^sup>0\<close> rows and
  \<open>P \<ge> 1\<close> threads such that \<open>m + nnz + P - 1\<close> is an \<open>int\<close>, the partitioner succeeds, the
  first start coordinate is \<open>(0, 0)\<close>, the last end coordinate is \<open>(m, nnz)\<close>, and each end
  coordinate is the next thread's start coordinate.
\<close>

theorem partition_coverage:
  assumes "wf_offsets m nnz row_offsets" and "1 \<le> P"
    and "length thread_coords = nat P" and "length thread_coord_ends = nat P"
    and "m \<le> 2 ^ 30" and "m + nnz + P - 1 \<le> 2 ^ 31 - 1"
  shows "\<exists>starts ends.
      OmpMergePartitionMatrix thread_coords thread_coord_ends P m nnz row_offsets
        = Inr (starts, ends)
      \<and> length starts = nat P \<and> length ends = nat P
      \<and> starts ! 0 = \<lparr>coord_x = 0, coord_y = 0\<rparr>
      \<and> ends ! (nat P - 1) = \<lparr>coord_x = m, coord_y = nnz\<rparr>
      \<and> (\<forall>t. t + 1 < nat P \<longrightarrow> ends ! t = starts ! (t + 1))"
proof -
  let ?M = "m + nnz" and ?q = "quantum (m + nnz) P"
  have fit: "m + nnz + P - 1 < 2 ^ 31" using assms(6) by simp
  from OmpMergePartitionMatrix_result [OF assms(1,2,3,4,5) fit]
  obtain tc tce where r: "OmpMergePartitionMatrix thread_coords thread_coord_ends P m nnz row_offsets
        = Inr (tc, tce)" "length tc = nat P" "length tce = nat P"
    and nth: "\<And>t. t < nat P \<Longrightarrow> tc ! t = merge_path_spec m nnz row_offsets (min (?q * int t) ?M)
           \<and> tce ! t = merge_path_spec m nnz row_offsets (min (?q * (int t + 1)) ?M)"
    by blast
  have M: "0 \<le> ?M" using assms(1) by (simp add: wf_offsets_def)
  have "tc ! 0 = merge_path_spec m nnz row_offsets 0" using nth [of 0] assms(2) M by simp
  then have first: "tc ! 0 = \<lparr>coord_x = 0, coord_y = 0\<rparr>"
    by (simp add: merge_path_spec_0 [OF assms(1)])
  have "?M \<le> ?q * P" using assms(2) by (rule quantum_covers)
  moreover have "int (nat P - 1) + 1 = P" using assms(2) by simp
  ultimately have "min (?q * (int (nat P - 1) + 1)) ?M = ?M" by simp
  then have "tce ! (nat P - 1) = merge_path_spec m nnz row_offsets ?M"
    using nth [of "nat P - 1"] assms(2) by simp
  then have last: "tce ! (nat P - 1) = \<lparr>coord_x = m, coord_y = nnz\<rparr>"
    by (simp add: merge_path_spec_end [OF assms(1)])
  have "\<forall>t. t + 1 < nat P \<longrightarrow> tce ! t = tc ! (t + 1)"
  proof (intro allI impI)
    fix t assume t: "t + 1 < nat P"
    then have "t < nat P" by simp
    from nth [OF this] nth [OF t] show "tce ! t = tc ! (t + 1)" by (simp add: add.commute)
  qed
  with r first last show ?thesis by blast
qed

theorem partition_coverage_witness:
  "wf_offsets 4 6 s2_row_offsets \<and> (1::int) \<le> 3
   \<and> (4::int) \<le> 2 ^ 30 \<and> (4::int) + 6 + 3 - 1 \<le> 2 ^ 31 - 1
   \<and> (\<exists>starts ends.
      OmpMergePartitionMatrix s2_fresh s2_fresh 3 4 6 s2_row_offsets = Inr (starts, ends)
      \<and> length starts = nat 3 \<and> length ends = nat 3
      \<and> starts ! 0 = \<lparr>coord_x = 0, coord_y = 0\<rparr>
      \<and> ends ! (nat 3 - 1) = \<lparr>coord_x = 4, coord_y = 6\<rparr>
      \<and> (\<forall>t. t + 1 < nat 3 \<longrightarrow> ends ! t = starts ! (t + 1)))"
proof -
  have h: "wf_offsets 4 6 s2_row_offsets" by (simp add: wf_offsets_def s2_row_offsets_def)
  have l: "length s2_fresh = nat 3" by (simp add: s2_fresh_def)
  from partition_coverage [OF h _ l l] h
  show ?thesis by simp
qed

text \<open>
  Claim C4 as stated fails. For one row, \<open>2\<^sup>3\<^sup>1 - 2\<close> nonzeros and two threads,
  \<open>num_merge_items + num_threads\<close> wraps around, \<open>items_per_thread\<close> is \<open>-2\<^sup>3\<^sup>0\<close>, and
  thread 1 starts at \<open>(1, 2\<^sup>3\<^sup>1 - 2)\<close>, on diagonal \<open>2\<^sup>3\<^sup>1 - 1\<close>, where \<open>min(q, M) = 2\<^sup>3\<^sup>0\<close>.
  On the matrix with 1500000000 rows and eight threads the partitioner produces no
  coordinates at all.
\<close>

theorem partition_diagonals_counterexample:
  "wf_offsets 1 2147483646 long_row_offsets \<and> (1::int) \<le> 2
   \<and> length long_fresh = nat 2
   \<and> OmpMergePartitionMatrix long_fresh long_fresh 2 1 2147483646 long_row_offsets
       = Inr ([\<lparr>coord_x = 0, coord_y = 0\<rparr>, \<lparr>coord_x = 1, coord_y = 2147483646\<rparr>],
              [\<lparr>coord_x = 1, coord_y = 2147483646\<rparr>, \<lparr>coord_x = 1, coord_y = 2147483646\<rparr>])
   \<and> min (quantum (1 + 2147483646) 2 * int 1) (1 + 2147483646) = 1073741824
   \<and> (1::int) + 2147483646 \<noteq> 1073741824
   \<and> wf_offsets 1500000000 100000000 large_row_offsets \<and> (1::int) \<le> 8
   \<and> length large_fresh = nat 8
   \<and> OmpMergePartitionMatrix large_fresh large_fresh 8 1500000000 100000000 large_row_offsets
       = Inl (OutOfBounds RowOffsets)"
proof -
  have "wf_offsets 1 2147483646 long_row_offsets"
    by (simp add: wf_offsets_def long_row_offsets_def)
  moreover have "OmpMergePartitionMatrix long_fresh long_fresh 2 1 2147483646 long_row_offsets
       = Inr ([\<lparr>coord_x = 0, coord_y = 0\<rparr>, \<lparr>coord_x = 1, coord_y = 2147483646\<rparr>],
              [\<lparr>coord_x = 1, coord_y = 2147483646\<rparr>, \<lparr>coord_x = 1, coord_y = 2147483646\<rparr>])"
    by code_simp
  moreover have "quantum (1 + 2147483646) 2 = 1073741824"
    by (simp add: quantum_eq)
  ultimately show ?thesis
    using large_wf_offsets large_partition_fails by (simp add: long_fresh_def large_fresh_def)
qed

text \<open>
  Claim C4, amended. For a well-formed row-offset array with \<open>m \<le> 2\<^sup>3\<^sup>0\<close> rows and
  \<open>P \<ge> 1\<close> threads such that \<open>m + nnz + P - 1\<close> is an \<open>int\<close>, with \<open>M = m + nnz\<close> and
  \<open>q = \<lceil>M / P\<rceil>\<close>, the coordinates of thread \<open>t\<close> lie on the diagonals \<open>min(q t, M)\<close>
  (start) and \<open>min(q t + q, M)\<close> (end).
\<close>

theorem partition_diagonals:
  assumes "wf_offsets m nnz row_offsets" and "1 \<le> P"
    and "length thread_coords = nat P" and "length thread_coord_ends = nat P"
    and "m \<le> 2 ^ 30" and "m + nnz + P - 1 \<le> 2 ^ 31 - 1"
  shows "\<exists>starts ends.
      OmpMergePartitionMatrix thread_coords thread_coord_ends P m nnz row_offsets
        = Inr (starts, ends)
      \<and> length starts = nat P \<and> length ends = nat P
      \<and> (\<forall>t<nat P.
            coord_x (starts ! t) + coord_y (starts ! t)
              = min (quantum (m + nnz) P * int t) (m + nnz)
          \<and> coord_x (ends ! t) + coord_y (ends ! t)
              = min (quantum (m + nnz) P * int t + quantum (m + nnz) P) (m + nnz))"
proof -
  let ?M = "m + nnz" and ?q = "quantum (m + nnz) P"
  have fit: "m + nnz + P - 1 < 2 ^ 31" using assms(6) by simp
  from OmpMergePartitionMatrix_result [OF assms(1,2,3,4,5) fit]
  obtain tc tce where r: "OmpMergePartitionMatrix thread_coords thread_coord_ends P m nnz row_offsets
        = Inr (tc, tce)" "length tc = nat P" "length tce = nat P"
    and nth: "\<And>t. t < nat P \<Longrightarrow> tc ! t = merge_path_spec m nnz row_offsets (min (?q * int t) ?M)
           \<and> tce ! t = merge_path_spec m nnz row_offsets (min (?q * (int t + 1)) ?M)"
    by blast
  have sum: "\<And>d. coord_x (merge_path_spec m nnz row_offsets d)
      + coord_y (merge_path_spec m nnz row_offsets d) = d"
    by (simp add: merge_path_spec_def Let_def)
  have "\<forall>t<nat P. coord_x (tc ! t) + coord_y (tc ! t) = min (?q * int t) ?M
          \<and> coord_x (tce ! t) + coord_y (tce ! t) = min (?q * int t + ?q) ?M"
    using nth sum by (simp add: algebra_simps)
  with r show ?thesis by blast
qed

theorem partition_diagonals_witness:
  "wf_offsets 4 6 s2_row_offsets \<and> (1::int) \<le> 3
   \<and> (4::int) \<le> 2 ^ 30 \<and> (4::int) + 6 + 3 - 1 \<le> 2 ^ 31 - 1
   \<and> (\<exists>starts ends.
      OmpMergePartitionMatrix s2_fresh s2_fresh 3 4 6 s2_row_offsets = Inr (starts, ends)
      \<and> length starts = nat 3 \<and> length ends = nat 3
      \<and> (\<forall>t<nat 3.
            coord_x (starts ! t) + coord_y (starts ! t)
              = min (quantum (4 + 6) 3 * int t) (4 + 6)
          \<and> coord_x (ends ! t) + coord_y (ends ! t)
              = min (quantum (4 + 6) 3 * int t + quantum (4 + 6) 3) (4 + 6)))"
proof -
  have h: "wf_offsets 4 6 s2_row_offsets" by (simp add: wf_offsets_def s2_row_offsets_def)
  have l: "length s2_fresh = nat 3" by (simp add: s2_fresh_def)
  from partition_diagonals [OF h _ l l] h
  show ?thesis by simp
qed

subsection \<open>The kernel, thread by thread\<close>

lemma partial_sum_empty [simp]: "b \<le> a \<Longrightarrow> partial_sum col vals x a b = 0"
  by (simp add: partial_sum_def)

lemma partial_sum_step:
  "a \<le> k \<Longrightarrow> foldl f z [a..k] = f (foldl f z [a..k - 1]) k"
  by (simp add: upto_rec2 [of a k])

lemma for_loop_fail:
  "i < n \<Longrightarrow> body i s = Inl e \<Longrightarrow> for_loop i n body s = Inl e"
  by (subst for_loop.simps) simp

lemma nonzero_product_result:
  assumes "length col = nat nnz" and "length vals = nat nnz"
    and "list_all (\<lambda>c. 0 \<le> c \<and> c < int (length x)) col"
    and "0 \<le> j" and "j < nnz"
  shows "nonzero_product col vals x j = Inr (vals ! nat j * x ! nat (col ! nat j))"
proof -
  have "nat j < length col" using assms by simp
  then have "0 \<le> col ! nat j \<and> col ! nat j < int (length x)"
    using assms(3) by (simp add: list_all_length)
  then show ?thesis using assms by (simp add: nonzero_product_def)
qed

lemma accumulate_result:
  assumes "length col = nat nnz" and "length vals = nat nnz"
    and "list_all (\<lambda>c. 0 \<le> c \<and> c < int (length x)) col"
    and "0 \<le> j" and "limit \<le> nnz"
  shows "accumulate col vals x j limit 0 = Inr (max j limit, partial_sum col vals x j limit)"
proof (cases "j \<le> limit")
  case False
  then show ?thesis by (simp add: accumulate_def for_loop_done max_def)
next
  case True
  let ?f = "\<lambda>total j. total + vals ! nat j * x ! nat (col ! nat j)"
  let ?body = "\<lambda>j total. and_then (nonzero_product col vals x j) (\<lambda>p. Inr (total + p))"
  have "\<exists>s'. for_loop j limit ?body 0 = Inr (limit, s') \<and> s' = foldl ?f 0 [j..limit - 1]"
  proof (rule for_loop_invariant [where I = "\<lambda>k t. t = foldl ?f 0 [j..k - 1]"])
    show "0 = foldl ?f 0 [j..j - 1]" by simp
    show "j \<le> limit" by (rule True)
    fix k t assume k: "j \<le> k" "k < limit" and t: "t = foldl ?f 0 [j..k - 1]"
    have "nonzero_product col vals x k = Inr (vals ! nat k * x ! nat (col ! nat k))"
      using assms k by (intro nonzero_product_result [where nnz = nnz]) auto
    then show "\<exists>t'. ?body k t = Inr t' \<and> t' = foldl ?f 0 [j..k + 1 - 1]"
      using k t by (simp add: partial_sum_step)
  qed
  then show ?thesis using True by (simp add: accumulate_def partial_sum_def max_def)
qed

lemma wf_csr_D:
  assumes "wf_csr m n nnz ro col vals x"
  shows "wf_offsets m nnz ro" and "length col = nat nnz" and "length vals = nat nnz"
    and "list_all (\<lambda>c. 0 \<le> c \<and> c < int (length x)) col"
    and "length ro = nat m + 1" and "0 \<le> nnz" and "1 \<le> m"
  using assms by (auto simp: wf_csr_def wf_offsets_def)

lemma consume_row_result:
  assumes wf: "wf_csr m n nnz ro col vals x"
    and row: "0 \<le> row" "row < m" and j: "0 \<le> j" and y: "length y = nat m"
  shows "consume_row ro col vals x row (j, y)
     = Inr (max j (ro ! nat (row + 1)),
            y[nat row := partial_sum col vals x j (ro ! nat (row + 1))])"
proof -
  note D = wf_csr_D [OF wf]
  have lim: "ro ! nat (row + 1) \<le> nnz"
    using wf_offsets_bounds(2) [OF D(1), of "row + 1"] row by simp
  have ld: "load RowOffsets ro (row + 1) = Inr (ro ! nat (row + 1))"
    using row D(5) by simp
  show ?thesis
    using accumulate_result [OF D(2) D(3) D(4) j lim] row y
    by (simp add: consume_row_def ld)
qed

lemma row_start_next:
  assumes wf: "wf_offsets m nnz ro" and k: "coord_x c \<le> k" "0 \<le> k" "k < m"
  shows "max (row_start ro c k) (ro ! nat (k + 1)) = row_start ro c (k + 1)"
proof -
  have "ro ! nat k \<le> ro ! nat (k + 1)"
    using wf_offsets_nth_mono [OF wf, of k "k + 1"] k by simp
  then show ?thesis using k by (auto simp: row_start_def)
qed

lemma consume_rows_result:
  assumes wf: "wf_csr m n nnz ro col vals x"
    and c: "0 \<le> coord_x c" "coord_x c \<le> xe" "xe \<le> m" "0 \<le> coord_y c"
    and y: "length y = nat m"
  shows "for_loop (coord_x c) xe (consume_row ro col vals x) (coord_y c, y)
     = Inr (xe, row_start ro c xe,
            map (\<lambda>i. if coord_x c \<le> int i \<and> int i < xe then row_write ro col vals x c i else y ! i)
              [0..<nat m])"
proof -
  note D = wf_csr_D [OF wf]
  define I where "I k st \<longleftrightarrow> st = (row_start ro c k,
      map (\<lambda>i. if coord_x c \<le> int i \<and> int i < k then row_write ro col vals x c i else y ! i)
        [0..<nat m])" for k and st :: "int \<times> 'a list"
  have "\<exists>s'. for_loop (coord_x c) xe (consume_row ro col vals x) (coord_y c, y) = Inr (xe, s')
      \<and> I xe s'"
  proof (rule for_loop_invariant)
    show "I (coord_x c) (coord_y c, y)"
      using y by (auto simp: I_def row_start_def intro!: nth_equalityI)
    show "coord_x c \<le> xe" by (rule c(2))
    fix k st assume k: "coord_x c \<le> k" "k < xe" and inv: "I k st"
    let ?y = "map (\<lambda>i. if coord_x c \<le> int i \<and> int i < k then row_write ro col vals x c i else y ! i)
        [0..<nat m]"
    have st: "st = (row_start ro c k, ?y)" using inv by (simp add: I_def)
    have k0: "0 \<le> k" "k < m" using k c by simp_all
    have j0: "0 \<le> row_start ro c k"
      using c(4) by (auto simp: row_start_def)
    have "consume_row ro col vals x k (row_start ro c k, ?y)
      = Inr (max (row_start ro c k) (ro ! nat (k + 1)),
             ?y[nat k := partial_sum col vals x (row_start ro c k) (ro ! nat (k + 1))])"
      by (rule consume_row_result [OF wf k0 j0]) simp
    moreover have "?y[nat k := partial_sum col vals x (row_start ro c k) (ro ! nat (k + 1))]
      = map (\<lambda>i. if coord_x c \<le> int i \<and> int i < k + 1 then row_write ro col vals x c i else y ! i)
        [0..<nat m]"
    proof (rule nth_equalityI)
      show "length (?y[nat k := partial_sum col vals x (row_start ro c k) (ro ! nat (k + 1))])
        = length (map (\<lambda>i. if coord_x c \<le> int i \<and> int i < k + 1 then row_write ro col vals x c i else y ! i)
        [0..<nat m])" by simp
      fix i assume "i < length (?y[nat k := partial_sum col vals x (row_start ro c k) (ro ! nat (k + 1))])"
      then have i: "i < nat m" by simp
      have eq: "nat (k + 1) = nat k + 1" using k0 by simp
      show "?y[nat k := partial_sum col vals x (row_start ro c k) (ro ! nat (k + 1))] ! i
        = map (\<lambda>i. if coord_x c \<le> int i \<and> int i < k + 1 then row_write ro col vals x c i else y ! i)
        [0..<nat m] ! i"
      proof (cases "i = nat k")
        case True
        then show ?thesis using i k k0 by (simp add: row_write_def eq)
      next
        case False
        then have "int i \<noteq> k" using k0 by auto
        then have "(int i < k + 1) = (int i < k)" by auto
        then show ?thesis using i False by simp
      qed
    qed
    ultimately show "\<exists>t'. consume_row ro col vals x k st = Inr t' \<and> I (k + 1) t'"
      using row_start_next [OF D(1) k(1) k0] by (simp add: st I_def)
  qed
  then show ?thesis by (auto simp: I_def)
qed

lemma merge_thread_result:
  assumes wf: "wf_csr m n nnz ro col vals x"
    and t: "0 \<le> t" "t < int (length tcs)" "t < int (length tces)"
    and c: "0 \<le> coord_x (tcs ! nat t)" "coord_x (tcs ! nat t) \<le> coord_x (tces ! nat t)"
      "coord_x (tces ! nat t) \<le> m" "0 \<le> coord_y (tcs ! nat t)" "coord_y (tces ! nat t) \<le> nnz"
    and y: "length y = nat m"
  shows "merge_thread tcs tces ro col vals x t (y, rco, vco)
     = and_then (store RowCarryOut rco t (Some (coord_x (tces ! nat t))))
         (\<lambda>rco'. and_then
            (store ValueCarryOut vco t (Some (carry_out ro col vals x (tcs ! nat t) (tces ! nat t))))
         (\<lambda>vco'. Inr (map (\<lambda>i. if coord_x (tcs ! nat t) \<le> int i \<and> int i < coord_x (tces ! nat t)
                                 then row_write ro col vals x (tcs ! nat t) i else y ! i) [0..<nat m],
                        rco', vco')))"
proof -
  note D = wf_csr_D [OF wf]
  let ?s = "tcs ! nat t" and ?e = "tces ! nat t"
  have j: "0 \<le> row_start ro ?s (coord_x ?e)" using c(4) by (auto simp: row_start_def)
  show ?thesis
    using t consume_rows_result [OF wf c(1) c(2) c(3) c(4) y]
      accumulate_result [OF D(2) D(3) D(4) j c(5)]
    by (simp add: merge_thread_def carry_out_def)
qed

lemma partition_in_range_D:
  assumes "partition_in_range P m nnz tcs tces" and "t < nat P"
  shows "0 \<le> coord_x (tcs ! t)" and "coord_x (tcs ! t) \<le> coord_x (tces ! t)"
    and "coord_x (tces ! t) \<le> m" and "0 \<le> coord_y (tcs ! t)"
    and "coord_y (tcs ! t) \<le> coord_y (tces ! t)" and "coord_y (tces ! t) \<le> nnz"
  using assms by (auto simp: partition_in_range_def list_all_length)

lemma merge_threads_prefix:
  assumes wf: "wf_csr m n nnz ro col vals x"
    and part: "partition_in_range P m nnz tcs tces"
    and k: "0 \<le> k" "k \<le> P" "k \<le> 256"
    and y: "length y0 = nat m"
  shows "\<exists>rco vco.
      for_loop 0 k (merge_thread tcs tces ro col vals x)
          (y0, replicate 256 None, replicate 256 None)
        = Inr (k, map (y_parallel tcs tces ro col vals x y0 (nat k)) [0..<nat m], rco, vco)
      \<and> length rco = 256 \<and> length vco = 256
      \<and> (\<forall>t<nat k. rco ! t = Some (coord_x (tces ! t))
            \<and> vco ! t = Some (carry_out ro col vals x (tcs ! t) (tces ! t)))"
proof -
  define I where "I j st \<longleftrightarrow> (case st of (y, rco, vco) \<Rightarrow>
      y = map (y_parallel tcs tces ro col vals x y0 (nat j)) [0..<nat m]
      \<and> length rco = 256 \<and> length vco = 256
      \<and> (\<forall>t<nat j. rco ! t = Some (coord_x (tces ! t))
            \<and> vco ! t = Some (carry_out ro col vals x (tcs ! t) (tces ! t))))"
    for j and st :: "'a list \<times> int option list \<times> 'a option list"
  have len: "length tcs = nat P" "length tces = nat P"
    using part by (simp_all add: partition_in_range_def)
  have "\<exists>s'. for_loop 0 k (merge_thread tcs tces ro col vals x)
          (y0, replicate 256 None, replicate 256 None) = Inr (k, s') \<and> I k s'"
  proof (rule for_loop_invariant)
    show "I 0 (y0, replicate 256 None, replicate 256 None)"
      using y by (auto simp: I_def intro!: nth_equalityI)
    show "0 \<le> k" by (rule k(1))
    fix j st assume j: "0 \<le> j" "j < k" and inv: "I j st"
    obtain y rco vco where st: "st = (y, rco, vco)" by (cases st)
    have yj: "y = map (y_parallel tcs tces ro col vals x y0 (nat j)) [0..<nat m]"
      and l: "length rco = 256" "length vco = 256"
      and old: "\<And>t. t < nat j \<Longrightarrow> rco ! t = Some (coord_x (tces ! t))
            \<and> vco ! t = Some (carry_out ro col vals x (tcs ! t) (tces ! t))"
      using inv by (simp_all add: I_def st)
    have jP: "nat j < nat P" "j < int (length tcs)" "j < int (length tces)" "j < 256"
      using j k len by simp_all
    note B = partition_in_range_D [OF part jP(1)]
    have ylen: "length y = nat m" by (simp add: yj)
    have nj: "nat (j + 1) = Suc (nat j)" using j by simp
    let ?y' = "map (\<lambda>i. if coord_x (tcs ! nat j) \<le> int i \<and> int i < coord_x (tces ! nat j)
                       then row_write ro col vals x (tcs ! nat j) i else y ! i) [0..<nat m]"
    have y': "?y' = map (y_parallel tcs tces ro col vals x y0 (nat (j + 1))) [0..<nat m]"
      by (simp add: nj yj)
    have "merge_thread tcs tces ro col vals x j (y, rco, vco)
      = Inr (?y', rco[nat j := Some (coord_x (tces ! nat j))],
             vco[nat j := Some (carry_out ro col vals x (tcs ! nat j) (tces ! nat j))])"
      using merge_thread_result [OF wf j(1) jP(2) jP(3) B(1) B(2) B(3) B(4) B(6) ylen, of rco vco]
        j jP(4) l by simp
    moreover have "I (j + 1) (map (y_parallel tcs tces ro col vals x y0 (nat (j + 1))) [0..<nat m],
             rco[nat j := Some (coord_x (tces ! nat j))],
             vco[nat j := Some (carry_out ro col vals x (tcs ! nat j) (tces ! nat j))])"
      unfolding I_def using l old jP(4) j
      by (auto simp: nj nth_list_update less_Suc_eq simp del: y_parallel.simps)
    ultimately show "\<exists>t'. merge_thread tcs tces ro col vals x j st = Inr t' \<and> I (j + 1) t'"
      by (simp only: st y') simp
  qed
  then show ?thesis by (auto simp: I_def)
qed

lemma merge_threads_result:
  assumes wf: "wf_csr m n nnz ro col vals x"
    and part: "partition_in_range P m nnz tcs tces"
    and P: "0 \<le> P" "P \<le> 256"
    and y: "length y0 = nat m"
  shows "\<exists>rco vco.
      merge_threads tcs tces P ro col vals x y0
        = Inr (map (y_parallel tcs tces ro col vals x y0 (nat P)) [0..<nat m], rco, vco)
      \<and> length rco = 256 \<and> length vco = 256
      \<and> (\<forall>t<nat P. rco ! t = Some (coord_x (tces ! t))
            \<and> vco ! t = Some (carry_out ro col vals x (tcs ! t) (tces ! t)))"
  using merge_threads_prefix [OF wf part P(1) _ P(2) y]
  by (auto simp: merge_threads_def)

lemma merge_threads_overflow:
  assumes wf: "wf_csr m n nnz ro col vals x"
    and part: "partition_in_range P m nnz tcs tces"
    and P: "256 < P"
    and y: "length y0 = nat m"
  shows "merge_threads tcs tces P ro col vals x y0 = Inl (OutOfBounds RowCarryOut)"
proof -
  from merge_threads_prefix [OF wf part _ _ _ y, of 256] P
  obtain rco vco where r: "for_loop 0 256 (merge_thread tcs tces ro col vals x)
          (y0, replicate 256 None, replicate 256 None)
        = Inr (256, map (y_parallel tcs tces ro col vals x y0 (nat 256)) [0..<nat m], rco, vco)"
    and l: "length rco = 256" "length vco = 256"
    by auto
  let ?y = "map (y_parallel tcs tces ro col vals x y0 (nat 256)) [0..<nat m]"
  have len: "length tcs = nat P" "length tces = nat P"
    using part by (simp_all add: partition_in_range_def)
  have t: "(256::nat) < nat P" using P by simp
  note B = partition_in_range_D [OF part t]
  have "merge_thread tcs tces ro col vals x 256 (?y, rco, vco) = Inl (OutOfBounds RowCarryOut)"
    using merge_thread_result [OF wf, of 256 tcs tces ?y rco vco] B len P l
    by (simp add: store_def)
  then have "for_loop 256 P (merge_thread tcs tces ro col vals x) (?y, rco, vco)
      = Inl (OutOfBounds RowCarryOut)"
    using P by (intro for_loop_fail) simp_all
  moreover have "for_loop 0 P (merge_thread tcs tces ro col vals x)
          (y0, replicate 256 None, replicate 256 None)
      = for_loop 256 P (merge_thread tcs tces ro col vals x) (?y, rco, vco)"
    using P by (intro for_loop_split [OF _ r]) simp_all
  ultimately show ?thesis by (simp add: merge_threads_def)
qed

lemma load_init_Some [simp]:
  "0 \<le> i \<Longrightarrow> i < int (length xs) \<Longrightarrow> xs ! nat i = Some v \<Longrightarrow> load_init arr xs i = Inr v"
  by (simp add: load_init_def)

lemma fixup_result:
  assumes y: "length y = nat m" and l: "length rco = 256" "length vco = 256"
    and P: "1 \<le> P" "P \<le> 256"
    and carry: "\<And>t. t < nat (P - 1) \<Longrightarrow>
       rco ! t = Some (rows t) \<and> vco ! t = Some (carries t) \<and> 0 \<le> rows t"
  shows "fixup P m rco vco y = Inr (map (y_fixup rows carries y (nat (P - 1))) [0..<nat m])"
proof -
  define I where "I k y' \<longleftrightarrow> y' = map (y_fixup rows carries y (nat k)) [0..<nat m]"
    for k and y' :: "'a list"
  have "\<exists>s'. for_loop 0 (P - 1) (fixup_step m rco vco) y = Inr (P - 1, s') \<and> I (P - 1) s'"
  proof (rule for_loop_invariant)
    show "I 0 y" using y by (auto simp: I_def intro!: nth_equalityI)
    show "0 \<le> P - 1" using P by simp
    fix k y' assume k: "0 \<le> k" "k < P - 1" and inv: "I k y'"
    have y': "y' = map (y_fixup rows carries y (nat k)) [0..<nat m]" using inv by (simp add: I_def)
    have kt: "nat k < nat (P - 1)" using k by simp
    note C = carry [OF kt]
    have nk: "nat (k + 1) = Suc (nat k)" using k by simp
    have kl: "k < int (length rco)" "k < int (length vco)" using k P l by simp_all
    have lr: "load_init RowCarryOut rco k = Inr (rows (nat k))"
      using k kl C by simp
    have lv: "load_init ValueCarryOut vco k = Inr (carries (nat k))"
      using k kl C by simp
    show "\<exists>t'. fixup_step m rco vco k y' = Inr t' \<and> I (k + 1) t'"
    proof (cases "rows (nat k) < m")
      case True
      have "y'[nat (rows (nat k)) := y' ! nat (rows (nat k)) + carries (nat k)]
          = map (y_fixup rows carries y (nat (k + 1))) [0..<nat m]"
        using True C by (auto simp: y' nk nth_list_update intro!: nth_equalityI)
      then show ?thesis
        using True C by (simp add: fixup_step_def lr lv I_def y')
    next
      case False
      then have "\<And>i. i < nat m \<Longrightarrow> rows (nat k) \<noteq> int i" by auto
      then have "y' = map (y_fixup rows carries y (nat (k + 1))) [0..<nat m]"
        by (auto simp: y' nk intro!: nth_equalityI)
      then show ?thesis using False by (simp add: fixup_step_def lr I_def)
    qed
  qed
  then show ?thesis by (auto simp: fixup_def I_def)
qed

lemma OmpMergeCsrmv_result:
  assumes wf: "wf_csr m n nnz ro col vals x"
    and part: "partition_in_range P m nnz tcs tces"
    and P: "1 \<le> P" "P \<le> 256"
    and y: "length y0 = nat m"
  shows "OmpMergeCsrmv tcs tces P m nnz ro col vals x y0
    = Inr (y_final tcs tces P m ro col vals x y0)"
proof -
  from merge_threads_result [OF wf part _ P(2) y] P(1)
  obtain rco vco where r: "merge_threads tcs tces P ro col vals x y0
        = Inr (map (y_parallel tcs tces ro col vals x y0 (nat P)) [0..<nat m], rco, vco)"
    and l: "length rco = 256" "length vco = 256"
    and c: "\<And>t. t < nat P \<Longrightarrow> rco ! t = Some (coord_x (tces ! t))
            \<and> vco ! t = Some (carry_out ro col vals x (tcs ! t) (tces ! t))"
    by auto
  have "fixup P m rco vco (map (y_parallel tcs tces ro col vals x y0 (nat P)) [0..<nat m])
    = Inr (y_final tcs tces P m ro col vals x y0)"
    unfolding y_final_def
  proof (rule fixup_result [OF _ l P])
    show "length (map (y_parallel tcs tces ro col vals x y0 (nat P)) [0..<nat m]) = nat m" by simp
    fix t assume t: "t < nat (P - 1)"
    then have tP: "t < nat P" by simp
    from c [OF tP] partition_in_range_D(1,2) [OF part tP]
    show "rco ! t = Some (coord_x (tces ! t))
        \<and> vco ! t = Some (carry_out ro col vals x (tcs ! t) (tces ! t)) \<and> 0 \<le> coord_x (tces ! t)"
      by simp
  qed
  then show ?thesis by (simp add: OmpMergeCsrmv_def r)
qed

lemma y_fixup_sum:
  fixes carries :: "nat \<Rightarrow> 'a::comm_monoid_add"
  shows "y_fixup rows carries y k i = y ! i + (\<Sum>t<k. if rows t = int i then carries t else 0)"
  by (induction k) (simp_all add: add.assoc)

subsection \<open>The sample input is well formed\<close>

lemma s2_wf_csr: "wf_csr 4 6 6 s2_row_offsets s2_column_indices s2_values s2_vector_x"
  by (simp add: wf_csr_def wf_offsets_def s2_row_offsets_def s2_column_indices_def s2_values_def
      s2_vector_x_def)

lemma s2_in_range: "partition_in_range 3 4 6 s2_starts s2_ends"
  by (simp add: partition_in_range_def s2_starts_def s2_ends_def)

lemma large_wf_csr:
  "wf_csr 1500000000 1 100000000 large_row_offsets large_column_indices large_values
     large_vector_x"
  using large_wf_offsets
  by (simp add: wf_csr_def large_column_indices_def large_values_def large_vector_x_def
      list_all_length)

lemma wide_wf_csr:
  "wf_csr 2 1 2147483647 wide_row_offsets wide_column_indices wide_values large_vector_x"
  using wide_wf_offsets
  by (simp add: wf_csr_def wide_column_indices_def wide_values_def large_vector_x_def
      list_all_length)

text \<open>From \<open>(2, 2\<^sup>3\<^sup>1 - 1)\<close> to itself the kernel completes no row and reads no nonzero.\<close>

lemma wide_kernel:
  "OmpMergeCsrmv wide_end wide_end 1 2 2147483647 wide_row_offsets wide_column_indices
     wide_values large_vector_x [v, v] = Inr [v, v]"
  by (simp add: OmpMergeCsrmv_def merge_threads_def merge_thread_def wide_end_def
      accumulate_def for_loop.simps fixup_def)

subsection \<open>The claims about the kernel\<close>

text \<open>
  Claim C5. The fix-up loop runs over the threads \<open>0, \<dots>, P - 2\<close> and adds thread \<open>t\<close>'s
  carry-out value to \<open>y[carry_row[t]]\<close> exactly when \<open>carry_row[t] < m\<close>; the last
  thread's carry-out is never applied. The carry-out row of thread \<open>t\<close> is \<open>end[t].x\<close>, so
  for a partition whose coordinates stay inside the matrix the fix-up finishes without an
  out-of-bounds access, and row \<open>i < m\<close> receives the carry-outs of the threads
  \<open>t \<le> P - 2\<close> that ended in row \<open>i\<close>.
\<close>

theorem fixup_adds_carries:
  fixes vals :: "'a::{comm_monoid_add,times} list"
  assumes "wf_csr m n nnz row_offsets column_indices vals vector_x"
    and "partition_in_range P m nnz thread_coords thread_coord_ends"
    and "1 \<le> P" and "P \<le> 256" and "length y0 = nat m"
  shows "\<exists>y row_carry_out value_carry_out carry ys.
      merge_threads thread_coords thread_coord_ends P row_offsets column_indices vals vector_x y0
        = Inr (y, row_carry_out, value_carry_out)
      \<and> (\<forall>t<nat P. row_carry_out ! t = Some (coord_x (thread_coord_ends ! t))
                    \<and> value_carry_out ! t = Some (carry t))
      \<and> fixup P m row_carry_out value_carry_out y = Inr ys
      \<and> OmpMergeCsrmv thread_coords thread_coord_ends P m nnz row_offsets column_indices vals
          vector_x y0 = Inr ys
      \<and> length ys = nat m
      \<and> (\<forall>i<nat m. ys ! i = y ! i
            + (\<Sum>t<nat P - 1. if coord_x (thread_coord_ends ! t) = int i then carry t else 0))"
proof -
  let ?carry = "\<lambda>t. carry_out row_offsets column_indices vals vector_x (thread_coords ! t)
      (thread_coord_ends ! t)"
  let ?y = "map (y_parallel thread_coords thread_coord_ends row_offsets column_indices vals
      vector_x y0 (nat P)) [0..<nat m]"
  from merge_threads_result [OF assms(1,2) _ assms(4,5)] assms(3)
  obtain rco vco where r: "merge_threads thread_coords thread_coord_ends P row_offsets
        column_indices vals vector_x y0 = Inr (?y, rco, vco)"
    and c: "\<forall>t<nat P. rco ! t = Some (coord_x (thread_coord_ends ! t)) \<and> vco ! t = Some (?carry t)"
    by auto
  let ?ys = "y_final thread_coords thread_coord_ends P m row_offsets column_indices vals
      vector_x y0"
  have k: "OmpMergeCsrmv thread_coords thread_coord_ends P m nnz row_offsets column_indices vals
          vector_x y0 = Inr ?ys"
    by (rule OmpMergeCsrmv_result [OF assms])
  then have f: "fixup P m rco vco ?y = Inr ?ys" by (simp add: OmpMergeCsrmv_def r)
  have l: "length ?ys = nat m" by (simp add: y_final_def)
  have P1: "nat (P - 1) = nat P - 1" by simp
  have s: "\<forall>i<nat m. ?ys ! i = ?y ! i
            + (\<Sum>t<nat P - 1. if coord_x (thread_coord_ends ! t) = int i then ?carry t else 0)"
    by (simp add: y_final_def y_fixup_sum P1 del: y_parallel.simps)
  show ?thesis
  proof (intro exI conjI)
    show "merge_threads thread_coords thread_coord_ends P row_offsets
        column_indices vals vector_x y0 = Inr (?y, rco, vco)" by (rule r)
    show "\<forall>t<nat P. rco ! t = Some (coord_x (thread_coord_ends ! t)) \<and> vco ! t = Some (?carry t)"
      by (rule c)
    show "fixup P m rco vco ?y = Inr ?ys" by (rule f)
    show "OmpMergeCsrmv thread_coords thread_coord_ends P m nnz row_offsets column_indices vals
          vector_x y0 = Inr ?ys" by (rule k)
    show "length ?ys = nat m" by (rule l)
    show "\<forall>i<nat m. ?ys ! i = ?y ! i
            + (\<Sum>t<nat P - 1. if coord_x (thread_coord_ends ! t) = int i then ?carry t else 0)"
      by (rule s)
  qed
qed

theorem fixup_adds_carries_witness:
  "wf_csr 4 6 6 s2_row_offsets s2_column_indices s2_values s2_vector_x
   \<and> partition_in_range 3 4 6 s2_starts s2_ends
   \<and> (\<exists>y row_carry_out value_carry_out carry ys.
      merge_threads s2_starts s2_ends 3 s2_row_offsets s2_column_indices s2_values s2_vector_x s2_y0
        = Inr (y, row_carry_out, value_carry_out)
      \<and> (\<forall>t<nat 3. row_carry_out ! t = Some (coord_x (s2_ends ! t))
                    \<and> value_carry_out ! t = Some (carry t))
      \<and> fixup 3 4 row_carry_out value_carry_out y = Inr ys
      \<and> OmpMergeCsrmv s2_starts s2_ends 3 4 6 s2_row_offsets s2_column_indices s2_values
          s2_vector_x s2_y0 = Inr ys
      \<and> length ys = nat 4
      \<and> (\<forall>i<nat 4. ys ! i = y ! i
            + (\<Sum>t<nat 3 - 1. if coord_x (s2_ends ! t) = int i then carry t else 0)))"
proof -
  have "length s2_y0 = nat 4" by (simp add: s2_y0_def)
  from fixup_adds_carries [OF s2_wf_csr s2_in_range _ _ this] s2_wf_csr s2_in_range
  show ?thesis by simp
qed

text \<open>
  Claim C6. The carry-out arrays have 256 cells. For a well-formed matrix and a partition
  whose coordinates stay inside the matrix, the kernel finishes without any out-of-bounds
  access when \<open>P \<le> 256\<close>; when \<open>P > 256\<close> its first failing access is the store into
  \<open>row_carry_out\<close> (every access to \<open>y\<close>, \<open>values\<close> and \<open>column_indices\<close> before it is
  in bounds).
\<close>

theorem carry_arrays_cap:
  fixes vals :: "'a::{zero,plus,times} list"
  assumes "wf_csr m n nnz row_offsets column_indices vals vector_x"
    and "partition_in_range P m nnz thread_coords thread_coord_ends"
    and "1 \<le> P" and "length y0 = nat m"
  shows "(P \<le> 256 \<longrightarrow>
           (\<exists>ys. OmpMergeCsrmv thread_coords thread_coord_ends P m nnz row_offsets column_indices
                   vals vector_x y0 = Inr ys))
       \<and> (256 < P \<longrightarrow>
           OmpMergeCsrmv thread_coords thread_coord_ends P m nnz row_offsets column_indices
             vals vector_x y0 = Inl (OutOfBounds RowCarryOut))"
proof (intro conjI impI)
  assume "P \<le> 256"
  from OmpMergeCsrmv_result [OF assms(1,2,3) this assms(4)]
  show "\<exists>ys. OmpMergeCsrmv thread_coords thread_coord_ends P m nnz row_offsets column_indices
                   vals vector_x y0 = Inr ys" by blast
next
  assume "256 < P"
  from merge_threads_overflow [OF assms(1,2) this assms(4)]
  show "OmpMergeCsrmv thread_coords thread_coord_ends P m nnz row_offsets column_indices
             vals vector_x y0 = Inl (OutOfBounds RowCarryOut)"
    by (simp add: OmpMergeCsrmv_def)
qed

theorem carry_arrays_cap_witness:
  "wf_csr 4 6 6 s2_row_offsets s2_column_indices s2_values s2_vector_x
   \<and> partition_in_range 3 4 6 s2_starts s2_ends
   \<and> (\<exists>ys. OmpMergeCsrmv s2_starts s2_ends 3 4 6 s2_row_offsets s2_column_indices s2_values
          s2_vector_x s2_y0 = Inr ys)"
proof -
  have "length s2_y0 = nat 4" by (simp add: s2_y0_def)
  from carry_arrays_cap [OF s2_wf_csr s2_in_range _ this] s2_wf_csr s2_in_range
  show ?thesis by simp
qed

lemma SpmvGold_result:
  assumes wf: "wf_csr m n nnz ro col vals x" and y: "length y0 = nat m"
  shows "SpmvGold m ro col vals x y0
     = Inr (map (\<lambda>i. partial_sum col vals x (ro ! i) (ro ! (i + 1))) [0..<nat m])"
proof -
  note D = wf_csr_D [OF wf]
  let ?body = "\<lambda>row y.
             and_then (load RowOffsets ro row)
               (\<lambda>offset. and_then (load RowOffsets ro (row + 1))
               (\<lambda>limit. and_then (accumulate col vals x offset limit 0)
               (\<lambda>r. store VectorY y row (snd r))))"
  define I where "I k y \<longleftrightarrow> y = map (\<lambda>i. if int i < k
      then partial_sum col vals x (ro ! i) (ro ! (i + 1)) else y0 ! i) [0..<nat m]"
    for k and y :: "'a list"
  have "\<exists>s'. for_loop 0 m ?body y0 = Inr (m, s') \<and> I m s'"
  proof (rule for_loop_invariant)
    show "I 0 y0" using y by (auto simp: I_def intro!: nth_equalityI)
    show "0 \<le> m" using D by simp
    fix k y assume k: "0 \<le> k" "k < m" and inv: "I k y"
    have yk: "y = map (\<lambda>i. if int i < k
      then partial_sum col vals x (ro ! i) (ro ! (i + 1)) else y0 ! i) [0..<nat m]"
      using inv by (simp add: I_def)
    have b: "0 \<le> ro ! nat k" "ro ! nat (k + 1) \<le> nnz"
      using wf_offsets_bounds(1) [OF D(1), of k] wf_offsets_bounds(2) [OF D(1), of "k + 1"] k
      by simp_all
    have nk: "nat (k + 1) = nat k + 1" using k by simp
    have "y[nat k := partial_sum col vals x (ro ! nat k) (ro ! nat (k + 1))]
      = map (\<lambda>i. if int i < k + 1
          then partial_sum col vals x (ro ! i) (ro ! (i + 1)) else y0 ! i) [0..<nat m]"
      using k by (auto simp: yk nk nth_list_update intro!: nth_equalityI)
    then show "\<exists>t'. ?body k y = Inr t' \<and> I (k + 1) t'"
      using k D(5) accumulate_result [OF D(2) D(3) D(4) b] by (simp add: I_def yk)
  qed
  then have "for_loop 0 m ?body y0 = Inr (m, map (\<lambda>i. partial_sum col vals x (ro ! i) (ro ! (i + 1)))
      [0..<nat m])"
    by (auto simp: I_def intro!: nth_equalityI)
  then show ?thesis by (simp add: SpmvGold_def)
qed

lemma on_path_mono:
  assumes wf: "wf_offsets m nnz ro"
    and c: "on_path m ro d c" and c': "on_path m ro d' c'" and d: "d \<le> d'"
  shows "coord_x c \<le> coord_x c'" and "coord_y c \<le> coord_y c'"
proof -
  show x: "coord_x c \<le> coord_x c'"
  proof (rule ccontr)
    assume "\<not> coord_x c \<le> coord_x c'"
    then have lt: "coord_x c' + 1 \<le> coord_x c" by simp
    then have "coord_x c' < m" using c by (simp add: on_path_def)
    then have "coord_y c' \<le> ro ! nat (coord_x c' + 1)" using c' by (simp add: on_path_def)
    also have "\<dots> \<le> ro ! nat (coord_x c)"
      using wf_offsets_nth_mono [OF wf, of "coord_x c' + 1" "coord_x c"] lt c c'
      by (simp add: on_path_def)
    also have "\<dots> \<le> coord_y c" using c by (simp add: on_path_def)
    finally show False using lt d c c' by (simp add: on_path_def)
  qed
  show "coord_y c \<le> coord_y c'"
  proof (cases "coord_x c = coord_x c'")
    case True
    then show ?thesis using d c c' by (simp add: on_path_def)
  next
    case False
    with x have lt: "coord_x c + 1 \<le> coord_x c'" by simp
    then have "coord_x c < m" using c' by (simp add: on_path_def)
    then have "coord_y c \<le> ro ! nat (coord_x c + 1)" using c by (simp add: on_path_def)
    also have "\<dots> \<le> ro ! nat (coord_x c')"
      using wf_offsets_nth_mono [OF wf, of "coord_x c + 1" "coord_x c'"] lt c c'
      by (simp add: on_path_def)
    also have "\<dots> \<le> coord_y c'" using c' by (simp add: on_path_def)
    finally show ?thesis .
  qed
qed

lemma path_points_step:
  assumes wf: "wf_offsets m nnz ro" and pp: "path_points m nnz ro P ps" and k: "k < nat P"
  shows "coord_x (ps ! k) \<le> coord_x (ps ! Suc k)" and "coord_y (ps ! k) \<le> coord_y (ps ! Suc k)"
proof -
  have a: "on_path m ro (coord_x (ps ! k) + coord_y (ps ! k)) (ps ! k)"
    and b: "on_path m ro (coord_x (ps ! Suc k) + coord_y (ps ! Suc k)) (ps ! Suc k)"
    and d: "coord_x (ps ! k) + coord_y (ps ! k) \<le> coord_x (ps ! Suc k) + coord_y (ps ! Suc k)"
    using pp k by (simp_all add: path_points_def)
  show "coord_x (ps ! k) \<le> coord_x (ps ! Suc k)" by (rule on_path_mono(1) [OF wf a b d])
  show "coord_y (ps ! k) \<le> coord_y (ps ! Suc k)" by (rule on_path_mono(2) [OF wf a b d])
qed

lemma path_points_mono:
  assumes wf: "wf_offsets m nnz ro" and pp: "path_points m nnz ro P ps"
    and k: "k \<le> k'" "k' \<le> nat P"
  shows "coord_x (ps ! k) \<le> coord_x (ps ! k') \<and> coord_y (ps ! k) \<le> coord_y (ps ! k')"
  using k
proof (induction k')
  case 0
  then show ?case by simp
next
  case (Suc j)
  show ?case
  proof (cases "k = Suc j")
    case True
    then show ?thesis by simp
  next
    case False
    with Suc.prems have "k \<le> j" "j \<le> nat P" "j < nat P" by simp_all
    with Suc.IH path_points_step [OF wf pp, of j] show ?thesis by simp
  qed
qed

lemma path_points_D:
  assumes wf: "wf_offsets m nnz ro" and pp: "path_points m nnz ro P ps" and k: "k \<le> nat P"
  shows "0 \<le> coord_x (ps ! k)" and "coord_x (ps ! k) \<le> m"
    and "0 \<le> coord_y (ps ! k)" and "coord_y (ps ! k) \<le> nnz"
    and "ro ! nat (coord_x (ps ! k)) \<le> coord_y (ps ! k)"
    and "coord_x (ps ! k) < m \<Longrightarrow> coord_y (ps ! k) \<le> ro ! nat (coord_x (ps ! k) + 1)"
proof -
  have op: "on_path m ro (coord_x (ps ! k) + coord_y (ps ! k)) (ps ! k)"
    using pp k by (simp add: path_points_def)
  then show x: "0 \<le> coord_x (ps ! k)" "coord_x (ps ! k) \<le> m"
    and lo: "ro ! nat (coord_x (ps ! k)) \<le> coord_y (ps ! k)"
    by (simp_all add: on_path_def)
  from op show "coord_x (ps ! k) < m \<Longrightarrow> coord_y (ps ! k) \<le> ro ! nat (coord_x (ps ! k) + 1)"
    by (simp add: on_path_def)
  have "0 \<le> ro ! nat (coord_x (ps ! k))" using wf_offsets_bounds(1) [OF wf] x by simp
  with lo show "0 \<le> coord_y (ps ! k)" by simp
  have "coord_y (ps ! k) \<le> coord_y (ps ! nat P)"
    using path_points_mono [OF wf pp k] by simp
  then show "coord_y (ps ! k) \<le> nnz" using pp by (simp add: path_points_def)
qed

lemma path_points_nth:
  assumes pp: "path_points m nnz ro P ps" and t: "t < nat P"
  shows "butlast ps ! t = ps ! t" and "tl ps ! t = ps ! Suc t"
  using assms by (simp_all add: path_points_def nth_butlast nth_tl)

lemma path_points_in_range:
  assumes wf: "wf_offsets m nnz ro" and pp: "path_points m nnz ro P ps"
  shows "partition_in_range P m nnz (butlast ps) (tl ps)"
proof -
  have len: "length (butlast ps) = nat P" "length (tl ps) = nat P"
    using pp by (simp_all add: path_points_def)
  have "\<And>t. t < nat P \<Longrightarrow>
     0 \<le> coord_x (ps ! t) \<and> coord_x (ps ! t) \<le> coord_x (ps ! Suc t) \<and> coord_x (ps ! Suc t) \<le> m
     \<and> 0 \<le> coord_y (ps ! t) \<and> coord_y (ps ! t) \<le> coord_y (ps ! Suc t) \<and> coord_y (ps ! Suc t) \<le> nnz"
    using path_points_D [OF wf pp] path_points_step [OF wf pp] by (simp add: Suc_le_eq)
  then show ?thesis
    using len path_points_nth [OF pp]
    by (simp add: partition_in_range_def list_all_length)
qed

lemma path_points_cover:
  assumes wf: "wf_offsets m nnz ro" and pp: "path_points m nnz ro P ps" and i: "i < nat m"
  shows "\<exists>t<nat P. coord_x (ps ! t) \<le> int i \<and> int i < coord_x (ps ! Suc t)"
proof (rule ccontr)
  assume no: "\<not> (\<exists>t<nat P. coord_x (ps ! t) \<le> int i \<and> int i < coord_x (ps ! Suc t))"
  have "k \<le> nat P \<Longrightarrow> coord_x (ps ! k) \<le> int i" for k
  proof (induction k)
    case 0
    then show ?case using pp by (simp add: path_points_def)
  next
    case (Suc k)
    then show ?case using no by (auto simp: not_less Suc_le_eq)
  qed
  from this [of "nat P"] have "m \<le> int i" using pp by (simp add: path_points_def)
  with i show False by simp
qed

text \<open>The partitioner produces such points.\<close>

lemma partition_path_points:
  assumes wf: "wf_offsets m nnz ro" and P: "1 \<le> P"
    and len: "length tc0 = nat P" "length tce0 = nat P"
    and fit: "m \<le> 2 ^ 30" "m + nnz + P - 1 < 2 ^ 31"
  shows "\<exists>ps. path_points m nnz ro P ps
     \<and> OmpMergePartitionMatrix tc0 tce0 P m nnz ro = Inr (butlast ps, tl ps)"
proof -
  let ?M = "m + nnz" and ?q = "quantum (m + nnz) P"
  define D where "D k = min (?q * int k) ?M" for k
  define ps where "ps = map (\<lambda>k. merge_path_spec m nnz ro (D k)) [0..<nat P + 1]"
  from OmpMergePartitionMatrix_result [OF assms]
  obtain tc tce where r: "OmpMergePartitionMatrix tc0 tce0 P m nnz ro = Inr (tc, tce)"
      "length tc = nat P" "length tce = nat P"
    and nth: "\<And>t. t < nat P \<Longrightarrow> tc ! t = merge_path_spec m nnz ro (D t)
           \<and> tce ! t = merge_path_spec m nnz ro (D (Suc t))"
    unfolding D_def by (auto simp: add.commute)
  have M: "0 \<le> ?M" using wf by (simp add: wf_offsets_def)
  have q: "0 \<le> ?q" using M P by (rule quantum_nonneg)
  have D: "\<And>k. 0 \<le> D k \<and> D k \<le> ?M" using M q by (simp add: D_def)
  have Dmono: "\<And>k. D k \<le> D (Suc k)"
    using q by (simp add: D_def algebra_simps min_def)
  have D0: "D 0 = 0" using M by (simp add: D_def)
  have "?M \<le> ?q * P" using P by (rule quantum_covers)
  then have DP: "D (nat P) = ?M" using P by (simp add: D_def)
  have psn: "\<And>k. k \<le> nat P \<Longrightarrow> ps ! k = merge_path_spec m nnz ro (D k)"
    unfolding ps_def by (simp add: nth_map_upt del: upt_Suc)
  have sum: "\<And>d. coord_x (merge_path_spec m nnz ro d) + coord_y (merge_path_spec m nnz ro d) = d"
    by (simp add: merge_path_spec_def Let_def)
  have "path_points m nnz ro P ps"
    unfolding path_points_def
  proof (intro conjI allI impI)
    show "length ps = nat P + 1" by (simp add: ps_def)
    show "ps ! 0 = \<lparr>coord_x = 0, coord_y = 0\<rparr>"
      using psn [of 0] D0 merge_path_spec_0 [OF wf] by simp
    show "ps ! nat P = \<lparr>coord_x = m, coord_y = nnz\<rparr>"
      using psn [of "nat P"] DP merge_path_spec_end [OF wf] by simp
  next
    fix k assume "k \<le> nat P"
    then show "on_path m ro (coord_x (ps ! k) + coord_y (ps ! k)) (ps ! k)"
      using psn [of k] D [of k] merge_path_spec_on_path [OF wf, of "D k"] by (simp add: sum)
  next
    fix k assume "k < nat P"
    then show "coord_x (ps ! k) + coord_y (ps ! k) \<le> coord_x (ps ! Suc k) + coord_y (ps ! Suc k)"
      using psn [of k] psn [of "Suc k"] Dmono [of k] by (simp add: sum)
  qed
  moreover have "tc = butlast ps"
    using r(2) nth psn by (auto simp: ps_def nth_butlast simp del: upt_Suc intro!: nth_equalityI)
  moreover have "tce = tl ps"
    using r(3) nth psn by (auto simp: ps_def nth_tl simp del: upt_Suc intro!: nth_equalityI)
  ultimately show ?thesis using r(1) by blast
qed

lemma y_parallel_covered:
  assumes "\<exists>t<k. coord_x (starts ! t) \<le> int i \<and> int i < coord_x (ends ! t)"
  shows "y_parallel starts ends ro col vals x y0 k i = y_parallel starts ends ro col vals x y0' k i"
  using assms by (induction k) (auto simp: less_Suc_eq)

lemma y_final_covered:
  assumes wf: "wf_offsets m nnz ro" and pp: "path_points m nnz ro P ps"
  shows "y_final (butlast ps) (tl ps) P m ro col vals x y0
       = y_final (butlast ps) (tl ps) P m ro col vals x y0'"
proof -
  have "map (y_parallel (butlast ps) (tl ps) ro col vals x y0 (nat P)) [0..<nat m]
      = map (y_parallel (butlast ps) (tl ps) ro col vals x y0' (nat P)) [0..<nat m]"
  proof (rule map_cong [OF refl])
    fix i assume "i \<in> set [0..<nat m]"
    then have "i < nat m" by simp
    from path_points_cover [OF wf pp this] path_points_nth [OF pp]
    have "\<exists>t<nat P. coord_x (butlast ps ! t) \<le> int i \<and> int i < coord_x (tl ps ! t)" by auto
    then show "y_parallel (butlast ps) (tl ps) ro col vals x y0 (nat P) i
        = y_parallel (butlast ps) (tl ps) ro col vals x y0' (nat P) i"
      by (rule y_parallel_covered)
  qed
  then show ?thesis by (simp only: y_final_def)
qed

text \<open>
  The iterations of the parallel loop commute on such a partition: thread \<open>t\<close> writes the
  rows \<open>start[t].x, \<dots>, end[t].x - 1\<close> of \<open>y\<close> and cell \<open>t\<close> of the carry-out arrays,
  and nothing else.
\<close>

lemma merge_threads_commute:
  fixes vals :: "'a::{zero,plus,times} list"
  assumes wf: "wf_csr m n nnz ro col vals x" and pp: "path_points m nnz ro P ps"
    and P: "P \<le> 256"
    and t: "t < nat P" "t' < nat P" "t < t'"
    and l: "length y = nat m" "length rco = 256" "length vco = 256"
  shows "and_then (merge_thread (butlast ps) (tl ps) ro col vals x (int t) (y, rco, vco))
           (merge_thread (butlast ps) (tl ps) ro col vals x (int t'))
       = and_then (merge_thread (butlast ps) (tl ps) ro col vals x (int t') (y, rco, vco))
           (merge_thread (butlast ps) (tl ps) ro col vals x (int t))"
proof -
  note D = wf_csr_D [OF wf]
  have pr: "partition_in_range P m nnz (butlast ps) (tl ps)"
    by (rule path_points_in_range [OF D(1) pp])
  have len: "length (butlast ps) = nat P" "length (tl ps) = nat P"
    using pr by (simp_all add: partition_in_range_def)
  note B = partition_in_range_D [OF pr t(1)]
  note B' = partition_in_range_D [OF pr t(2)]
  have ord: "coord_x (tl ps ! t) \<le> coord_x (butlast ps ! t')"
    using path_points_mono [OF D(1) pp, of "Suc t" t'] t path_points_nth [OF pp t(1)]
      path_points_nth [OF pp t(2)] by simp
  let ?w = "\<lambda>k i. if coord_x (butlast ps ! k) \<le> int i \<and> int i < coord_x (tl ps ! k)
      then row_write ro col vals x (butlast ps ! k) i else y ! i"
  have r: "merge_thread (butlast ps) (tl ps) ro col vals x (int k) (z, rc, vc)
      = Inr (map (\<lambda>i. if coord_x (butlast ps ! k) \<le> int i \<and> int i < coord_x (tl ps ! k)
                       then row_write ro col vals x (butlast ps ! k) i else z ! i) [0..<nat m],
             rc[k := Some (coord_x (tl ps ! k))],
             vc[k := Some (carry_out ro col vals x (butlast ps ! k) (tl ps ! k))])"
    if "k < nat P" "length z = nat m" "length rc = 256" "length vc = 256" for k z rc vc
    using merge_thread_result [OF wf, of "int k" "butlast ps" "tl ps" z rc vc]
      partition_in_range_D [OF pr that(1)] that len P by simp
  have "map (\<lambda>i. if coord_x (butlast ps ! t') \<le> int i \<and> int i < coord_x (tl ps ! t')
                       then row_write ro col vals x (butlast ps ! t') i
                       else map (?w t) [0..<nat m] ! i) [0..<nat m]
      = map (\<lambda>i. if coord_x (butlast ps ! t) \<le> int i \<and> int i < coord_x (tl ps ! t)
                       then row_write ro col vals x (butlast ps ! t) i
                       else map (?w t') [0..<nat m] ! i) [0..<nat m]"
    using ord by (auto intro!: nth_equalityI)
  moreover have "rco[t := a, t' := b] = rco[t' := b, t := a]" for a b
    using t(3) by (simp add: list_update_swap)
  moreover have "vco[t := a, t' := b] = vco[t' := b, t := a]" for a b
    using t(3) by (simp add: list_update_swap)
  ultimately show ?thesis
    using r [OF t(1) l] r [OF t(2) l] t l
    by (simp add: r)
qed

text \<open>
  Claim C8 as stated fails. On the matrix with 1500000000 rows and eight threads the
  partitioner produces no partition for the kernel to run on. On the matrix with two rows
  and \<open>2\<^sup>3\<^sup>1 - 1\<close> nonzeros \<open>num_rows + num_nonzeros\<close> wraps around, the single thread is
  given the empty range from \<open>(2, 2\<^sup>3\<^sup>1 - 1)\<close> to itself, and the kernel returns \<open>y\<close> as it
  found it.
\<close>

theorem kernel_overwrites_y_counterexample:
  "wf_csr 1500000000 1 100000000 large_row_offsets large_column_indices large_values
     large_vector_x
   \<and> OmpMergePartitionMatrix large_fresh large_fresh 8 1500000000 100000000 large_row_offsets
       = Inl (OutOfBounds RowOffsets)
   \<and> wf_csr 2 1 2147483647 wide_row_offsets wide_column_indices wide_values large_vector_x
   \<and> OmpMergePartitionMatrix wide_fresh wide_fresh 1 2 2147483647 wide_row_offsets
       = Inr (wide_end, wide_end)
   \<and> OmpMergeCsrmv wide_end wide_end 1 2 2147483647 wide_row_offsets wide_column_indices
         wide_values large_vector_x [9, 9] = Inr [9, 9]
   \<and> OmpMergeCsrmv wide_end wide_end 1 2 2147483647 wide_row_offsets wide_column_indices
         wide_values large_vector_x [5, 5] = Inr [5, 5]"
  using large_wf_csr large_partition_fails wide_wf_csr wide_partition wide_kernel [of 9]
    wide_kernel [of 5]
  by simp

text \<open>
  Claim C8, amended. For a well-formed matrix with \<open>m \<le> 2\<^sup>3\<^sup>0\<close> rows and \<open>1 \<le> P \<le> 256\<close>
  threads such that \<open>m + nnz + P - 1\<close> is an \<open>int\<close>, with the partition computed by the
  partitioner, the result of the kernel does not depend on the prior contents of \<open>y\<close>:
  every run on an output vector of length \<open>m\<close> returns the same \<open>ys\<close>, and so does a second
  run into the output of the first. The element type is arbitrary (no law of arithmetic is
  used).
\<close>

theorem kernel_overwrites_y:
  fixes vals :: "'a::{zero,plus,times} list"
  assumes "wf_csr m n nnz row_offsets column_indices vals vector_x"
    and "1 \<le> P" and "P \<le> 256"
    and "length thread_coords = nat P" and "length thread_coord_ends = nat P"
    and "m \<le> 2 ^ 30" and "m + nnz + P - 1 \<le> 2 ^ 31 - 1"
  shows "\<exists>starts ends ys.
      OmpMergePartitionMatrix thread_coords thread_coord_ends P m nnz row_offsets
        = Inr (starts, ends)
      \<and> length ys = nat m
      \<and> (\<forall>y0. length y0 = nat m \<longrightarrow>
            OmpMergeCsrmv starts ends P m nnz row_offsets column_indices vals vector_x y0 = Inr ys)
      \<and> OmpMergeCsrmv starts ends P m nnz row_offsets column_indices vals vector_x ys = Inr ys"
proof -
  note D = wf_csr_D [OF assms(1)]
  have fit: "m + nnz + P - 1 < 2 ^ 31" using assms(7) by simp
  from partition_path_points [OF D(1) assms(2,4,5,6) fit]
  obtain ps where pp: "path_points m nnz row_offsets P ps"
    and r: "OmpMergePartitionMatrix thread_coords thread_coord_ends P m nnz row_offsets
        = Inr (butlast ps, tl ps)" by blast
  have pr: "partition_in_range P m nnz (butlast ps) (tl ps)"
    by (rule path_points_in_range [OF D(1) pp])
  define ys where "ys = y_final (butlast ps) (tl ps) P m row_offsets column_indices vals vector_x
      (replicate (nat m) 0)"
  have l: "length ys = nat m" by (simp add: ys_def y_final_def)
  have all: "OmpMergeCsrmv (butlast ps) (tl ps) P m nnz row_offsets column_indices vals vector_x y0
      = Inr ys" if "length y0 = nat m" for y0
    using OmpMergeCsrmv_result [OF assms(1) pr assms(2,3) that]
      y_final_covered [OF D(1) pp, of column_indices vals vector_x y0 "replicate (nat m) 0"]
    by (simp add: ys_def)
  from r l all all [OF l] show ?thesis by blast
qed

theorem kernel_overwrites_y_witness:
  "wf_csr 4 6 6 s2_row_offsets s2_column_indices s2_values s2_vector_x
   \<and> (4::int) \<le> 2 ^ 30 \<and> (4::int) + 6 + 3 - 1 \<le> 2 ^ 31 - 1
   \<and> (\<exists>starts ends ys.
      OmpMergePartitionMatrix s2_fresh s2_fresh 3 4 6 s2_row_offsets = Inr (starts, ends)
      \<and> length ys = nat 4
      \<and> (\<forall>y0. length y0 = nat 4 \<longrightarrow>
            OmpMergeCsrmv starts ends 3 4 6 s2_row_offsets s2_column_indices s2_values
              s2_vector_x y0 = Inr ys)
      \<and> OmpMergeCsrmv starts ends 3 4 6 s2_row_offsets s2_column_indices s2_values
              s2_vector_x ys = Inr ys)"
proof -
  have "length s2_fresh = nat 3" by (simp add: s2_fresh_def)
  from kernel_overwrites_y [OF s2_wf_csr _ _ this this] s2_wf_csr
  show ?thesis by simp
qed

lemma row_start_ge:
  assumes "coord_x c = i \<Longrightarrow> ro ! nat i \<le> coord_y c"
  shows "ro ! nat i \<le> row_start ro c i"
  using assms by (auto simp: row_start_def)

lemma y_parallel_zero:
  assumes "\<exists>t<k. coord_x (starts ! t) \<le> int i \<and> int i < coord_x (ends ! t)"
    and "\<And>t. t < k \<Longrightarrow> row_write ro col vals x (starts ! t) i = 0"
  shows "y_parallel starts ends ro col vals x y0 k i = 0"
  using assms by (induction k) (auto simp: less_Suc_eq)

lemma y_fixup_zero:
  fixes carries :: "nat \<Rightarrow> 'a::monoid_add"
  assumes "y ! i = 0" and "\<And>t. t < k \<Longrightarrow> rows t = int i \<Longrightarrow> carries t = 0"
  shows "y_fixup rows carries y k i = 0"
  using assms by (induction k) auto

lemma y_final_zero_row:
  fixes vals :: "'a::{monoid_add,times} list"
  assumes wf: "wf_offsets m nnz ro" and pp: "path_points m nnz ro P ps" and P: "1 \<le> P"
    and i: "i < nat m" and z: "ro ! i = ro ! (i + 1)"
  shows "y_final (butlast ps) (tl ps) P m ro col vals x y0 ! i = 0"
proof -
  have start: "ro ! (i + 1) \<le> row_start ro (ps ! t) (int i)" if "t \<le> nat P" for t
  proof -
    have "ro ! nat (int i) \<le> row_start ro (ps ! t) (int i)"
    proof (rule row_start_ge)
      assume "coord_x (ps ! t) = int i"
      then show "ro ! nat (int i) \<le> coord_y (ps ! t)"
        using path_points_D(5) [OF wf pp that] by simp
    qed
    then show ?thesis using z by simp
  qed
  have w: "row_write ro col vals x (butlast ps ! t) i = 0" if "t < nat P" for t
    using start [of t] that path_points_nth(1) [OF pp that] by (simp add: row_write_def)
  have c: "carry_out ro col vals x (butlast ps ! t) (tl ps ! t) = 0"
    if "t < nat (P - 1)" and "coord_x (tl ps ! t) = int i" for t
  proof -
    have t: "t < nat P" "Suc t \<le> nat P" using that(1) by simp_all
    have x: "coord_x (ps ! Suc t) = int i" using that(2) path_points_nth(2) [OF pp t(1)] by simp
    then have "coord_x (ps ! Suc t) < m" using i by simp
    from path_points_D(6) [OF wf pp t(2) this] x
    have "coord_y (ps ! Suc t) \<le> ro ! (i + 1)" by (simp add: nat_add_distrib)
    with start [of t] t show ?thesis
      using path_points_nth [OF pp t(1)] x by (simp add: carry_out_def)
  qed
  have cov: "\<exists>t<nat P. coord_x (butlast ps ! t) \<le> int i \<and> int i < coord_x (tl ps ! t)"
    using path_points_cover [OF wf pp i] path_points_nth [OF pp] by auto
  have "y_parallel (butlast ps) (tl ps) ro col vals x y0 (nat P) i = 0"
    using cov w by (rule y_parallel_zero)
  then have "map (y_parallel (butlast ps) (tl ps) ro col vals x y0 (nat P)) [0..<nat m] ! i = 0"
    using i by (simp del: y_parallel.simps)
  then have "y_fixup (\<lambda>t. coord_x (tl ps ! t))
            (\<lambda>t. carry_out ro col vals x (butlast ps ! t) (tl ps ! t))
            (map (y_parallel (butlast ps) (tl ps) ro col vals x y0 (nat P)) [0..<nat m])
            (nat (P - 1)) i = 0"
    using c by (intro y_fixup_zero) auto
  then show ?thesis using i by (simp add: y_final_def del: y_parallel.simps)
qed

text \<open>
  Claim C7 as stated fails. On the matrix with 1500000000 rows, all but the last empty,
  and eight threads the partitioner fails and no \<open>y\<close> is computed. On the matrix with two
  rows and \<open>2\<^sup>3\<^sup>1 - 1\<close> nonzeros row 0 is empty and \<open>y[0]\<close> keeps its prior value 9.
\<close>

theorem zero_rows_exact_counterexample:
  "wf_csr 1500000000 1 100000000 large_row_offsets large_column_indices large_values
     large_vector_x
   \<and> large_row_offsets ! 0 = large_row_offsets ! (0 + 1)
   \<and> merge_spmv large_fresh large_fresh 8 1500000000 100000000 large_row_offsets
         large_column_indices large_values large_vector_x large_y0
       = Inl (OutOfBounds RowOffsets)
   \<and> wf_csr 2 1 2147483647 wide_row_offsets wide_column_indices wide_values large_vector_x
   \<and> wide_row_offsets ! 0 = wide_row_offsets ! (0 + 1)
   \<and> merge_spmv wide_fresh wide_fresh 1 2 2147483647 wide_row_offsets wide_column_indices
         wide_values large_vector_x [9, 9] = Inr [9, 9]"
  using large_wf_csr large_partition_fails wide_wf_csr wide_partition wide_kernel [of 9]
  by (simp add: merge_spmv_def large_row_offsets_def wide_row_offsets_def nth_append)

text \<open>
  Claim C7, amended. For a well-formed matrix with \<open>m \<le> 2\<^sup>3\<^sup>0\<close> rows and \<open>1 \<le> P \<le> 256\<close>
  threads such that \<open>m + nnz + P - 1\<close> is an \<open>int\<close>, after the partitioner and the kernel
  (parallel phase and fix-up) every row \<open>i\<close> with \<open>row_offsets[i] = row_offsets[i + 1]\<close> has
  \<open>y[i] = 0\<close>, whatever \<open>y\<close> held before; \<open>nnz = 0\<close> is included. The only law of
  arithmetic used is \<open>0 + 0 = 0\<close>.
\<close>

theorem zero_rows_exact:
  fixes vals :: "'a::{monoid_add,times} list"
  assumes "wf_csr m n nnz row_offsets column_indices vals vector_x"
    and "1 \<le> P" and "P \<le> 256"
    and "length thread_coords = nat P" and "length thread_coord_ends = nat P"
    and "length y0 = nat m"
    and "m \<le> 2 ^ 30" and "m + nnz + P - 1 \<le> 2 ^ 31 - 1"
  shows "\<exists>ys. merge_spmv thread_coords thread_coord_ends P m nnz row_offsets column_indices vals
            vector_x y0 = Inr ys
      \<and> length ys = nat m
      \<and> (\<forall>i<nat m. row_offsets ! i = row_offsets ! (i + 1) \<longrightarrow> ys ! i = 0)"
proof -
  note D = wf_csr_D [OF assms(1)]
  have fit: "m + nnz + P - 1 < 2 ^ 31" using assms(8) by simp
  from partition_path_points [OF D(1) assms(2,4,5,7) fit]
  obtain ps where pp: "path_points m nnz row_offsets P ps"
    and r: "OmpMergePartitionMatrix thread_coords thread_coord_ends P m nnz row_offsets
        = Inr (butlast ps, tl ps)" by blast
  have pr: "partition_in_range P m nnz (butlast ps) (tl ps)"
    by (rule path_points_in_range [OF D(1) pp])
  let ?ys = "y_final (butlast ps) (tl ps) P m row_offsets column_indices vals vector_x y0"
  have "merge_spmv thread_coords thread_coord_ends P m nnz row_offsets column_indices vals
            vector_x y0 = Inr ?ys"
    using OmpMergeCsrmv_result [OF assms(1) pr assms(2,3,6)] by (simp add: merge_spmv_def r)
  moreover have "length ?ys = nat m" by (simp add: y_final_def)
  moreover have "\<forall>i<nat m. row_offsets ! i = row_offsets ! (i + 1) \<longrightarrow> ?ys ! i = 0"
    using y_final_zero_row [OF D(1) pp assms(2)] by blast
  ultimately show ?thesis by blast
qed

theorem zero_rows_exact_witness:
  "wf_csr 4 6 6 s2_row_offsets s2_column_indices s2_values s2_vector_x
   \<and> (4::int) \<le> 2 ^ 30 \<and> (4::int) + 6 + 3 - 1 \<le> 2 ^ 31 - 1
   \<and> (\<exists>ys. merge_spmv s2_fresh s2_fresh 3 4 6 s2_row_offsets s2_column_indices s2_values
            s2_vector_x s2_y0 = Inr ys
      \<and> length ys = nat 4
      \<and> (\<forall>i<nat 4. s2_row_offsets ! i = s2_row_offsets ! (i + 1) \<longrightarrow> ys ! i = 0))"
proof -
  have "length s2_y0 = nat 4" "length s2_fresh = nat 3"
    by (simp_all add: s2_y0_def s2_fresh_def)
  from zero_rows_exact [OF s2_wf_csr _ _ this(2) this(2) this(1)] s2_wf_csr
  show ?thesis by simp
qed

lemma foldl_plus_sum_list:
  fixes z :: "'a::monoid_add"
  shows "foldl (\<lambda>total j. total + g j) z xs = z + sum_list (map g xs)"
  by (induction xs arbitrary: z) (simp_all add: add.assoc)

lemma partial_sum_sum_list:
  fixes vals :: "'a::{monoid_add,times} list"
  shows "partial_sum col vals x a b = (\<Sum>j\<leftarrow>[a..b - 1]. vals ! nat j * x ! nat (col ! nat j))"
  by (simp add: partial_sum_def foldl_plus_sum_list)

lemma partial_sum_split:
  fixes vals :: "'a::{monoid_add,times} list"
  assumes "a \<le> b" and "b \<le> c"
  shows "partial_sum col vals x a b + partial_sum col vals x b c = partial_sum col vals x a c"
proof (cases "b = c")
  case True
  then show ?thesis by simp
next
  case False
  with assms have "[a..c - 1] = [a..b - 1] @ [b..c - 1]"
    by (intro upto_split1) simp_all
  then show ?thesis by (simp add: partial_sum_sum_list)
qed

lemma row_part_split:
  fixes vals :: "'a::{monoid_add,times} list"
  assumes "a \<le> b" and "b \<le> c"
  shows "row_part ro col vals x i a b + row_part ro col vals x i b c = row_part ro col vals x i a c"
  unfolding row_part_def using assms by (intro partial_sum_split) (auto simp: min_def max_def)

lemma row_part_telescope:
  fixes vals :: "'a::{comm_monoid_add,times} list"
  assumes wf: "wf_offsets m nnz ro" and pp: "path_points m nnz ro P ps" and k: "k \<le> nat P"
  shows "(\<Sum>t<k. row_part ro col vals x i (coord_y (ps ! t)) (coord_y (ps ! Suc t)))
     = row_part ro col vals x i (coord_y (ps ! 0)) (coord_y (ps ! k))"
  using k
proof (induction k)
  case 0
  then show ?case by (simp add: row_part_def)
next
  case (Suc k)
  then have k: "k < nat P" "k \<le> nat P" by simp_all
  have "coord_y (ps ! 0) \<le> coord_y (ps ! k)"
    using path_points_mono [OF wf pp _ k(2), of 0] by simp
  moreover have "coord_y (ps ! k) \<le> coord_y (ps ! Suc k)"
    by (rule path_points_step(2) [OF wf pp k(1)])
  ultimately show ?case using Suc.IH k by (simp add: row_part_split)
qed

lemma row_part_full:
  assumes wf: "wf_offsets m nnz ro" and i: "i < nat m"
  shows "row_part ro col vals x i 0 nnz = partial_sum col vals x (ro ! i) (ro ! (i + 1))"
proof -
  have "0 \<le> ro ! nat (int i)" "ro ! nat (int i + 1) \<le> nnz" "ro ! nat (int i) \<le> ro ! nat (int i + 1)"
    using wf_offsets_bounds [OF wf, of "int i"] wf_offsets_bounds [OF wf, of "int i + 1"]
      wf_offsets_nth_mono [OF wf, of "int i" "int i + 1"] i by simp_all
  then have "0 \<le> ro ! i" "ro ! (i + 1) \<le> nnz" "ro ! i \<le> ro ! (i + 1)"
    by (simp_all add: nat_add_distrib)
  then show ?thesis by (simp add: row_part_def min_def max_def)
qed

text \<open>What thread \<open>t\<close> contributes to row \<open>i\<close>, as a write or as a carry-out.\<close>

lemma thread_contribution:
  fixes vals :: "'a::{monoid_add,times} list"
  assumes wf: "wf_offsets m nnz ro" and pp: "path_points m nnz ro P ps"
    and t: "t < nat P" and i: "i < nat m"
  shows "(if coord_x (ps ! t) \<le> int i \<and> int i < coord_x (ps ! Suc t)
          then row_write ro col vals x (ps ! t) i else 0)
       + (if coord_x (ps ! Suc t) = int i
          then carry_out ro col vals x (ps ! t) (ps ! Suc t) else 0)
     = row_part ro col vals x i (coord_y (ps ! t)) (coord_y (ps ! Suc t))"
proof -
  let ?s = "ps ! t" and ?e = "ps ! Suc t"
  have tt: "t \<le> nat P" "Suc t \<le> nat P" using t by simp_all
  note S = path_points_D [OF wf pp tt(1)]
  note E = path_points_D [OF wf pp tt(2)]
  note st = path_points_step [OF wf pp t]
  have im: "int i < m" "0 \<le> int i" using i by simp_all
  have ri: "ro ! i \<le> ro ! (i + 1)"
    using wf_offsets_nth_mono [OF wf, of "int i" "int i + 1"] i by (simp add: nat_add_distrib)
  have below: "ro ! (i + 1) \<le> ro ! nat k" if "int i < k" "k \<le> m" for k
    using wf_offsets_nth_mono [OF wf, of "int i + 1" k] that by (simp add: nat_add_distrib)
  have above: "ro ! nat (k + 1) \<le> ro ! i" if "k < int i" "0 \<le> k" for k
    using wf_offsets_nth_mono [OF wf, of "k + 1" "int i"] that im by simp
  consider (own) "coord_x ?s \<le> int i" "int i < coord_x ?e"
    | (carry) "coord_x ?e = int i"
    | (before) "int i < coord_x ?s"
    | (after) "coord_x ?e < int i"
    by linarith
  then show ?thesis
  proof cases
    case own
    have e: "ro ! (i + 1) \<le> coord_y ?e" using below [OF own(2) E(2)] E(5) by simp
    have s: "row_start ro ?s (int i) = min (max (coord_y ?s) (ro ! i)) (ro ! (i + 1))"
    proof (cases "coord_x ?s = int i")
      case True
      then show ?thesis using S(5) S(6) im by (simp add: row_start_def nat_add_distrib)
    next
      case False
      with own have lt: "coord_x ?s < int i" by simp
      then have "coord_y ?s \<le> ro ! i" using above [OF lt S(1)] S(6) im by simp
      then show ?thesis using False ri by (simp add: row_start_def)
    qed
    show ?thesis using own e ri by (simp add: row_write_def row_part_def s)
  next
    case carry
    have e: "ro ! i \<le> coord_y ?e" "coord_y ?e \<le> ro ! (i + 1)"
      using E(5) E(6) carry im by (simp_all add: nat_add_distrib)
    have s: "row_start ro ?s (int i) = min (max (coord_y ?s) (ro ! i)) (ro ! (i + 1))"
    proof (cases "coord_x ?s = int i")
      case True
      then show ?thesis using S(5) S(6) im by (simp add: row_start_def nat_add_distrib)
    next
      case False
      with carry st(1) have lt: "coord_x ?s < int i" by simp
      then have "coord_y ?s \<le> ro ! i" using above [OF lt S(1)] S(6) im by simp
      then show ?thesis using False ri by (simp add: row_start_def)
    qed
    show ?thesis using carry e by (simp add: carry_out_def row_part_def s)
  next
    case before
    have "ro ! (i + 1) \<le> coord_y ?s" using below [OF before S(2)] S(5) by simp
    moreover have "coord_y ?s \<le> coord_y ?e" by (rule st(2))
    ultimately show ?thesis using before st(1) ri by (simp add: row_part_def)
  next
    case after
    then have "coord_x ?e < m" using im by simp
    then have "coord_y ?e \<le> ro ! i" using above [OF after E(1)] E(6) by simp
    moreover have "coord_y ?s \<le> coord_y ?e" by (rule st(2))
    ultimately show ?thesis using after st(1) ri by (simp add: row_part_def)
  qed
qed

lemma y_parallel_sum:
  fixes vals :: "'a::{comm_monoid_add,times} list"
  assumes wf: "wf_offsets m nnz ro" and pp: "path_points m nnz ro P ps" and k: "k \<le> nat P"
  shows "y_parallel (butlast ps) (tl ps) ro col vals x y0 k i
     = (if int i < coord_x (ps ! k)
        then (\<Sum>t<k. if coord_x (ps ! t) \<le> int i \<and> int i < coord_x (ps ! Suc t)
                      then row_write ro col vals x (ps ! t) i else 0)
        else y0 ! i)"
  using k
proof (induction k)
  case 0
  then show ?case using pp by (simp add: path_points_def)
next
  case (Suc k)
  then have k: "k < nat P" "k \<le> nat P" by simp_all
  note n = path_points_nth [OF pp k(1)]
  note st = path_points_step(1) [OF wf pp k(1)]
  show ?case
  proof (cases "coord_x (ps ! k) \<le> int i \<and> int i < coord_x (ps ! Suc k)")
    case True
    have "(\<Sum>t<k. if coord_x (ps ! t) \<le> int i \<and> int i < coord_x (ps ! Suc t)
                      then row_write ro col vals x (ps ! t) i else 0) = 0"
    proof (rule sum.neutral, rule ballI)
      fix t assume "t \<in> {..<k}"
      then have "Suc t \<le> k" by simp
      from path_points_mono [OF wf pp this k(2)] True
      show "(if coord_x (ps ! t) \<le> int i \<and> int i < coord_x (ps ! Suc t)
                      then row_write ro col vals x (ps ! t) i else 0) = 0" by simp
    qed
    then show ?thesis using True n by simp
  next
    case False
    then have "(int i < coord_x (ps ! Suc k)) = (int i < coord_x (ps ! k))"
      using st by auto
    then show ?thesis using False n Suc.IH k by simp
  qed
qed

lemma y_final_row_sum:
  fixes vals :: "'a::{comm_monoid_add,times} list"
  assumes wf: "wf_offsets m nnz ro" and pp: "path_points m nnz ro P ps" and P: "1 \<le> P"
    and i: "i < nat m"
  shows "y_final (butlast ps) (tl ps) P m ro col vals x y0 ! i
     = partial_sum col vals x (ro ! i) (ro ! (i + 1))"
proof -
  let ?W = "\<lambda>t. if coord_x (ps ! t) \<le> int i \<and> int i < coord_x (ps ! Suc t)
                      then row_write ro col vals x (ps ! t) i else 0"
  let ?K = "\<lambda>t. if coord_x (ps ! Suc t) = int i
          then carry_out ro col vals x (ps ! t) (ps ! Suc t) else 0"
  have ends: "ps ! 0 = \<lparr>coord_x = 0, coord_y = 0\<rparr>" "ps ! nat P = \<lparr>coord_x = m, coord_y = nnz\<rparr>"
    using pp by (simp_all add: path_points_def)
  have P': "nat P = Suc (nat (P - 1))" using P by simp
  have "y_parallel (butlast ps) (tl ps) ro col vals x y0 (nat P) i = (\<Sum>t<nat P. ?W t)"
  proof -
    have "int i < m" using i by simp
    then show ?thesis
      using y_parallel_sum [OF wf pp, of "nat P" col vals x y0 i] ends by simp
  qed
  moreover have "(\<Sum>t<nat (P - 1). if coord_x (tl ps ! t) = int i
          then carry_out ro col vals x (butlast ps ! t) (tl ps ! t) else 0)
      = (\<Sum>t<nat (P - 1). ?K t)"
  proof (rule sum.cong [OF refl])
    fix t assume "t \<in> {..<nat (P - 1)}"
    then have "t < nat P" by simp
    from path_points_nth [OF pp this]
    show "(if coord_x (tl ps ! t) = int i
          then carry_out ro col vals x (butlast ps ! t) (tl ps ! t) else 0) = ?K t" by simp
  qed
  moreover have "(\<Sum>t<nat (P - 1). ?K t) = (\<Sum>t<nat P. ?K t)"
  proof -
    have "coord_x (ps ! Suc (nat (P - 1))) = m" using ends(2) by (simp only: P' [symmetric]) simp
    moreover have "m \<noteq> int i" using i by simp
    ultimately have K0: "?K (nat (P - 1)) = 0" by (simp only: if_False)
    have "(\<Sum>t<Suc (nat (P - 1)). ?K t) = (\<Sum>t<nat (P - 1). ?K t) + ?K (nat (P - 1))"
      by (rule sum.lessThan_Suc)
    also have "\<dots> = (\<Sum>t<nat (P - 1). ?K t)" by (simp only: K0 add_0_right)
    finally show ?thesis by (simp only: P' [symmetric])
  qed
  ultimately have "y_final (butlast ps) (tl ps) P m ro col vals x y0 ! i
      = (\<Sum>t<nat P. ?W t) + (\<Sum>t<nat P. ?K t)"
    using i by (simp add: y_final_def y_fixup_sum del: y_parallel.simps)
  also have "\<dots> = (\<Sum>t<nat P. ?W t + ?K t)" by (simp only: sum.distrib)
  also have "\<dots> = (\<Sum>t<nat P. row_part ro col vals x i (coord_y (ps ! t)) (coord_y (ps ! Suc t)))"
  proof (rule sum.cong [OF refl])
    fix t assume "t \<in> {..<nat P}"
    then have "t < nat P" by simp
    from thread_contribution [OF wf pp this i]
    show "?W t + ?K t = row_part ro col vals x i (coord_y (ps ! t)) (coord_y (ps ! Suc t))" .
  qed
  also have "\<dots> = row_part ro col vals x i 0 nnz"
    using row_part_telescope [OF wf pp, of "nat P"] ends by simp
  also have "\<dots> = partial_sum col vals x (ro ! i) (ro ! (i + 1))"
    by (rule row_part_full [OF wf i])
  finally show ?thesis .
qed

text \<open>
  Claim C1 as stated fails. On the matrix with 1500000000 rows and eight threads the
  partitioner fails, so the kernel computes nothing, while SpmvGold returns a vector. On
  the matrix with two rows and \<open>2\<^sup>3\<^sup>1 - 1\<close> nonzeros the kernel returns \<open>y\<close> as it found
  it, and SpmvGold does not: its row 0 is 0.
\<close>

theorem merge_spmv_equals_gold_counterexample:
  "wf_csr 1500000000 1 100000000 large_row_offsets large_column_indices large_values
     large_vector_x
   \<and> merge_spmv large_fresh large_fresh 8 1500000000 100000000 large_row_offsets
         large_column_indices large_values large_vector_x large_y0
       = Inl (OutOfBounds RowOffsets)
   \<and> SpmvGold 1500000000 large_row_offsets large_column_indices large_values large_vector_x
         large_y0
       \<noteq> Inl (OutOfBounds RowOffsets)
   \<and> wf_csr 2 1 2147483647 wide_row_offsets wide_column_indices wide_values large_vector_x
   \<and> merge_spmv wide_fresh wide_fresh 1 2 2147483647 wide_row_offsets wide_column_indices
         wide_values large_vector_x [9, 9] = Inr [9, 9]
   \<and> SpmvGold 2 wide_row_offsets wide_column_indices wide_values large_vector_x [9, 9]
       \<noteq> Inr [9, 9]"
proof -
  have "length large_y0 = nat 1500000000" by (simp add: large_y0_def)
  from SpmvGold_result [OF large_wf_csr this]
  have g1: "SpmvGold 1500000000 large_row_offsets large_column_indices large_values
      large_vector_x large_y0 \<noteq> Inl (OutOfBounds RowOffsets)" by simp
  have "length [9, 9 :: int] = nat 2" by simp
  from SpmvGold_result [OF wide_wf_csr this]
  have g2: "SpmvGold 2 wide_row_offsets wide_column_indices wide_values large_vector_x [9, 9]
      \<noteq> Inr [9, 9]"
    by (simp add: numeral_2_eq_2 wide_row_offsets_def)
  from large_wf_csr large_partition_fails wide_wf_csr wide_partition wide_kernel [of 9] g1 g2
  show ?thesis by (simp add: merge_spmv_def)
qed

text \<open>
  Claim C1, amended. For a well-formed CSR matrix with \<open>m \<le> 2\<^sup>3\<^sup>0\<close> rows, an input vector of
  length \<open>n\<close> and \<open>1 \<le> P \<le> 256\<close> threads such that \<open>m + nnz + P - 1\<close> is an \<open>int\<close>, the
  kernel run on the partition computed by the partitioner returns the same vector as
  SpmvGold, when addition is associative and commutative with unit \<open>0\<close>: entry \<open>i\<close> is the
  sum of the products of row \<open>i\<close>.
\<close>

theorem merge_spmv_equals_gold:
  fixes vals :: "'a::{comm_monoid_add,times} list"
  assumes "wf_csr m n nnz row_offsets column_indices vals vector_x"
    and "1 \<le> P" and "P \<le> 256"
    and "length thread_coords = nat P" and "length thread_coord_ends = nat P"
    and "length y0 = nat m" and "length y_gold = nat m"
    and "m \<le> 2 ^ 30" and "m + nnz + P - 1 \<le> 2 ^ 31 - 1"
  shows "\<exists>ys. merge_spmv thread_coords thread_coord_ends P m nnz row_offsets column_indices vals
            vector_x y0 = Inr ys
      \<and> SpmvGold m row_offsets column_indices vals vector_x y_gold = Inr ys
      \<and> length ys = nat m
      \<and> (\<forall>i<nat m. ys ! i
            = (\<Sum>j\<leftarrow>[row_offsets ! i..row_offsets ! (i + 1) - 1].
                 vals ! nat j * vector_x ! nat (column_indices ! nat j)))"
proof -
  note D = wf_csr_D [OF assms(1)]
  have fit: "m + nnz + P - 1 < 2 ^ 31" using assms(9) by simp
  from partition_path_points [OF D(1) assms(2,4,5,8) fit]
  obtain ps where pp: "path_points m nnz row_offsets P ps"
    and r: "OmpMergePartitionMatrix thread_coords thread_coord_ends P m nnz row_offsets
        = Inr (butlast ps, tl ps)" by blast
  have pr: "partition_in_range P m nnz (butlast ps) (tl ps)"
    by (rule path_points_in_range [OF D(1) pp])
  let ?ys = "y_final (butlast ps) (tl ps) P m row_offsets column_indices vals vector_x y0"
  let ?gold = "map (\<lambda>i. partial_sum column_indices vals vector_x (row_offsets ! i)
      (row_offsets ! (i + 1))) [0..<nat m]"
  have "merge_spmv thread_coords thread_coord_ends P m nnz row_offsets column_indices vals
            vector_x y0 = Inr ?ys"
    using OmpMergeCsrmv_result [OF assms(1) pr assms(2,3,6)] by (simp add: merge_spmv_def r)
  moreover have "?ys = ?gold"
  proof (rule nth_equalityI)
    show "length ?ys = length ?gold" by (simp add: y_final_def)
    fix i assume "i < length ?ys"
    then have i: "i < nat m" by (simp add: y_final_def)
    from y_final_row_sum [OF D(1) pp assms(2) i] i
    show "?ys ! i = ?gold ! i" by simp
  qed
  moreover have "length ?gold = nat m" by simp
  moreover have "\<forall>i<nat m. ?gold ! i
            = (\<Sum>j\<leftarrow>[row_offsets ! i..row_offsets ! (i + 1) - 1].
                 vals ! nat j * vector_x ! nat (column_indices ! nat j))"
    by (simp add: partial_sum_sum_list)
  ultimately show ?thesis using SpmvGold_result [OF assms(1,7)] by simp
qed

theorem merge_spmv_equals_gold_witness:
  "wf_csr 4 6 6 s2_row_offsets s2_column_indices s2_values s2_vector_x
   \<and> (4::int) \<le> 2 ^ 30 \<and> (4::int) + 6 + 3 - 1 \<le> 2 ^ 31 - 1
   \<and> (\<exists>ys. merge_spmv s2_fresh s2_fresh 3 4 6 s2_row_offsets s2_column_indices s2_values
            s2_vector_x s2_y0 = Inr ys
      \<and> SpmvGold 4 s2_row_offsets s2_column_indices s2_values s2_vector_x s2_y0 = Inr ys
      \<and> length ys = nat 4
      \<and> (\<forall>i<nat 4. ys ! i
            = (\<Sum>j\<leftarrow>[s2_row_offsets ! i..s2_row_offsets ! (i + 1) - 1].
                 s2_values ! nat j * s2_vector_x ! nat (s2_column_indices ! nat j))))"
proof -
  have "length s2_y0 = nat 4" "length s2_fresh = nat 3"
    by (simp_all add: s2_y0_def s2_fresh_def)
  from merge_spmv_equals_gold [OF s2_wf_csr _ _ this(2) this(2) this(1) this(1)] s2_wf_csr
  show ?thesis by simp
qed


subsection \<open>The driver\<close>

text \<open>
  Claim C9 as stated fails: a Matrix Market matrix without nonzeros is degenerate in the
  specification's sense but goes on to the benchmarks; so does a generated 1-by-1 matrix;
  and in quiet mode nothing is reported.
\<close>

theorem trivial_dataset_counterexample:
  "degenerate \<lparr>coo_num_rows = 5, coo_num_cols = 5, coo_num_nonzeros = 0\<rparr>
   \<and> RunTests_load False ''a.mtx'' (- 1) (- 1) (- 1) (- 1)
       \<lparr>coo_num_rows = 5, coo_num_cols = 5, coo_num_nonzeros = 0\<rparr>
     = ([MtxLabel ''a.mtx''], RunBenchmarks)
   \<and> \<not> reports_trivial (RunTests_load False ''a.mtx'' (- 1) (- 1) (- 1) (- 1)
       \<lparr>coo_num_rows = 5, coo_num_cols = 5, coo_num_nonzeros = 0\<rparr>)
   \<and> degenerate \<lparr>coo_num_rows = 1, coo_num_cols = 1, coo_num_nonzeros = 1\<rparr>
   \<and> \<not> reports_trivial (RunTests_load False [] 1 (- 1) (- 1) (- 1)
       \<lparr>coo_num_rows = 1, coo_num_cols = 1, coo_num_nonzeros = 1\<rparr>)
   \<and> \<not> reports_trivial (RunTests_load True ''a.mtx'' (- 1) (- 1) (- 1) (- 1)
       \<lparr>coo_num_rows = 1, coo_num_cols = 1, coo_num_nonzeros = 1\<rparr>)"
  by (simp add: degenerate_def reports_trivial_def RunTests_load_def)

text \<open>
  Claim C9, amended. For a matrix loaded from a Matrix Market file with exactly one row, or
  exactly one column, or exactly one nonzero, the driver exits with code 0 before any
  benchmark runs, and it prints the trivial-dataset message unless quiet mode is set.
\<close>

theorem trivial_dataset_exit:
  assumes "mtx_filename \<noteq> []"
    and "coo_num_rows coo_matrix = 1 \<or> coo_num_cols coo_matrix = 1
         \<or> coo_num_nonzeros coo_matrix = 1"
  shows "RunTests_load g_quiet mtx_filename grid2d grid3d wheel dense coo_matrix
     = ((if g_quiet then [] else [TrivialDataset]), Exit 0)"
  using assms by (auto simp: RunTests_load_def)

theorem trivial_dataset_exit_witness:
  "''a.mtx'' \<noteq> []
   \<and> (coo_num_rows \<lparr>coo_num_rows = 1, coo_num_cols = 5, coo_num_nonzeros = 3\<rparr> = 1
      \<or> coo_num_cols \<lparr>coo_num_rows = 1, coo_num_cols = 5, coo_num_nonzeros = 3\<rparr> = 1
      \<or> coo_num_nonzeros \<lparr>coo_num_rows = 1, coo_num_cols = 5, coo_num_nonzeros = 3\<rparr> = 1)
   \<and> RunTests_load False ''a.mtx'' (- 1) (- 1) (- 1) (- 1)
       \<lparr>coo_num_rows = 1, coo_num_cols = 5, coo_num_nonzeros = 3\<rparr>
     = ([TrivialDataset], Exit 0)"
  using trivial_dataset_exit [of "''a.mtx''"
      "\<lparr>coo_num_rows = 1, coo_num_cols = 5, coo_num_nonzeros = 3\<rparr>" False "- 1" "- 1" "- 1" "- 1"]
  by simp

end
